theory Spec2Isabelle
  imports Main "HOL-Library.Sublist" "HOL-Library.Log_Nat" "HOL-Library.AList"
begin

section \<open>Python values and exceptions\<close>

text \<open>
  The campaign tracker (\<^verbatim>\<open>campaign-tracker-v2.py\<close>) moves dynamically typed values
  around: database columns, sheet cells, configuration entries. The values that reach the
  modelled functions are \<^verbatim>\<open>None\<close>, integers and strings. Strings are lists of
  8-bit characters, read as code points below 256.
\<close>

datatype pyval = PNone | PInt int | PStr string

datatype pyexc = ValueError | TypeError | OverflowError | IndexError | KeyError
  | HttpError | IOError | DatabaseError

text \<open>Truthiness, as \<^verbatim>\<open>if x:\<close> and \<^verbatim>\<open>x or ""\<close> test it.\<close>

fun truthy :: "pyval \<Rightarrow> bool" where
  "truthy PNone = False"
| "truthy (PInt i) = (i \<noteq> 0)"
| "truthy (PStr s) = (s \<noteq> [])"

text \<open>
  \<^verbatim>\<open>str(x)\<close>: decimal digits for an integer; \<open>str_of_nat\<close> writes a non-negative one.
\<close>

definition digit_char :: "nat \<Rightarrow> char" where
  "digit_char n = ''0123456789'' ! n"

function str_of_nat :: "int \<Rightarrow> string" where
  "str_of_nat n =
     (if n < 10 then [digit_char (nat n)]
      else str_of_nat (n div 10) @ [digit_char (nat (n mod 10))])"
  by pat_completeness auto
termination
  by (relation "measure nat") auto

declare str_of_nat.simps [simp del]

definition str_of_int :: "int \<Rightarrow> string" where
  "str_of_int i = (if i < 0 then CHR ''-'' # str_of_nat (- i) else str_of_nat i)"

fun py_str :: "pyval \<Rightarrow> string" where
  "py_str PNone = ''None''"
| "py_str (PInt i) = str_of_int i"
| "py_str (PStr s) = s"

section \<open>String tests and \<^verbatim>\<open>int(float(x))\<close>\<close>

text \<open>
  \<^verbatim>\<open>str.strip()\<close> removes the characters for which \<^verbatim>\<open>str.isspace\<close> holds; below 256
  these are the code points 9 to 13, 28 to 32, 133 and 160. \<^verbatim>\<open>str.isdigit\<close> holds for
  a non-empty string of the decimal digits and the superscript digits 178, 179 and 185.
\<close>

definition is_space :: "char \<Rightarrow> bool" where
  "is_space c =
     (let n = (of_char c :: int)
      in (9 \<le> n \<and> n \<le> 13) \<or> (28 \<le> n \<and> n \<le> 32) \<or> n = 133 \<or> n = 160)"

definition strip :: "string \<Rightarrow> string" where
  "strip s = rev (dropWhile is_space (rev (dropWhile is_space s)))"

definition is_decimal :: "char \<Rightarrow> bool" where
  "is_decimal c = (let n = (of_char c :: int) in 48 \<le> n \<and> n \<le> 57)"

definition is_digit_char :: "char \<Rightarrow> bool" where
  "is_digit_char c =
     (let n = (of_char c :: int) in is_decimal c \<or> n = 178 \<or> n = 179 \<or> n = 185)"

definition isdigit :: "string \<Rightarrow> bool" where
  "isdigit s = (s \<noteq> [] \<and> list_all is_digit_char s)"

text \<open>\<^verbatim>\<open>s.replace('.', '')\<close>\<close>

definition remove_dots :: "string \<Rightarrow> string" where
  "remove_dots s = filter (\<lambda>c. c \<noteq> CHR ''.'') s"

text \<open>
  \<^verbatim>\<open>float(s)\<close> on a string: surrounding white space is dropped (the ASCII white space
  9 to 13 and 32, and the non-ASCII spaces 133 and 160; the separators 28 to 31 are
  not), an underscore may stand between two digits only, then come an optional sign and
  either \<^verbatim>\<open>inf\<close>, \<^verbatim>\<open>infinity\<close> or \<^verbatim>\<open>nan\<close> in any letter case, or a decimal numeral
  with an optional fraction and an optional exponent. Anything else raises
  \<^verbatim>\<open>ValueError\<close>. The literal's value is kept exactly, as a numerator and a denominator.
\<close>

definition is_float_space :: "char \<Rightarrow> bool" where
  "is_float_space c =
     (let n = (of_char c :: int) in (9 \<le> n \<and> n \<le> 13) \<or> n = 32 \<or> n = 133 \<or> n = 160)"

definition float_strip :: "string \<Rightarrow> string" where
  "float_strip s = rev (dropWhile is_float_space (rev (dropWhile is_float_space s)))"

definition digit_val :: "char \<Rightarrow> int" where
  "digit_val c = of_char c - 48"

definition int_of_digits :: "string \<Rightarrow> int" where
  "int_of_digits ds = foldl (\<lambda>a c. 10 * a + digit_val c) 0 ds"

datatype literal = Finite bool int int | Infinite | NotANumber

definition split_sign :: "string \<Rightarrow> bool \<times> string" where
  "split_sign s =
     (case s of
        [] \<Rightarrow> (False, s)
      | c # t \<Rightarrow>
          if c = CHR ''-'' then (True, t) else if c = CHR ''+'' then (False, t) else (False, s))"

definition lower_ascii :: "char \<Rightarrow> char" where
  "lower_ascii c =
     (let n = (of_char c :: int) in if 65 \<le> n \<and> n \<le> 90 then char_of (n + 32) else c)"

fun underscores_ok :: "char \<Rightarrow> string \<Rightarrow> bool" where
  "underscores_ok prev [] = (prev \<noteq> CHR ''_'')"
| "underscores_ok prev (c # cs) =
     ((if c = CHR ''_'' then is_decimal prev else prev \<noteq> CHR ''_'' \<or> is_decimal c)
      \<and> underscores_ok c cs)"

definition parse_exponent :: "string \<Rightarrow> int option" where
  "parse_exponent s =
     (case s of
        [] \<Rightarrow> Some 0
      | c # t \<Rightarrow>
          if c = CHR ''e'' \<or> c = CHR ''E''
          then (let (neg, ds) = split_sign t
                in if ds \<noteq> [] \<and> list_all is_decimal ds
                   then Some (if neg then - int_of_digits ds else int_of_digits ds)
                   else None)
          else None)"

definition parse_number :: "string \<Rightarrow> (int \<times> int) option" where
  "parse_number s =
     (let ip = takeWhile is_decimal s;
          r1 = dropWhile is_decimal s;
          fp = (case r1 of [] \<Rightarrow> []
                | c # t \<Rightarrow> if c = CHR ''.'' then takeWhile is_decimal t else []);
          r2 = (case r1 of [] \<Rightarrow> []
                | c # t \<Rightarrow> if c = CHR ''.'' then dropWhile is_decimal t else r1)
      in if ip = [] \<and> fp = [] then None
         else case parse_exponent r2 of
                None \<Rightarrow> None
              | Some ex \<Rightarrow>
                  (let m = int_of_digits (ip @ fp); sh = ex - int (length fp)
                   in if 0 \<le> sh then Some (m * 10 ^ nat sh, 1) else Some (m, 10 ^ nat (- sh))))"

definition parse_float :: "string \<Rightarrow> literal option" where
  "parse_float s =
     (let t = float_strip s
      in if \<not> underscores_ok (CHR 0x00) t then None
         else let (neg, u) = split_sign (filter (\<lambda>c. c \<noteq> CHR ''_'') t);
                  l = map lower_ascii u
              in if l = ''inf'' \<or> l = ''infinity'' then Some Infinite
                 else if l = ''nan'' then Some NotANumber
                 else case parse_number u of
                        None \<Rightarrow> None
                      | Some (n, d) \<Rightarrow> Some (Finite neg n d))"

text \<open>
  A double has 53 significant bits and rounds to nearest, ties to even. For a positive
  \<open>n / d\<close> with binary exponent \<open>e\<close> (at least \<open>-1022\<close>, where the subnormal numbers
  start) the spacing of the doubles is \<open>2 ^ (e - 52)\<close>. \<open>double_trunc n d\<close> is the
  integer part of the double nearest to \<open>n / d\<close>, and \<open>None\<close> when that double is
  infinite.
\<close>

definition round_half_even :: "int \<Rightarrow> int \<Rightarrow> int" where
  "round_half_even n d =
     (let q = n div d; r = n mod d
      in if 2 * r < d \<or> (2 * r = d \<and> even q) then q else q + 1)"

definition floor_log2 :: "int \<Rightarrow> int \<Rightarrow> int" where
  "floor_log2 n d =
     (let k = bitlen n - bitlen d
      in if (if 0 \<le> k then d * 2 ^ nat k \<le> n else d \<le> n * 2 ^ nat (- k)) then k
         else k - 1)"

definition double_trunc :: "int \<Rightarrow> int \<Rightarrow> int option" where
  "double_trunc n d =
     (if n = 0 then Some 0
      else let e = max (floor_log2 n d) (- 1022); s = e - 52
           in if 0 \<le> s
              then (let v = round_half_even n (d * 2 ^ nat s) * 2 ^ nat s
                    in if 2 ^ 1024 \<le> v then None else Some v)
              else Some (round_half_even (n * 2 ^ nat (- s)) d div 2 ^ nat (- s)))"

text \<open>
  \<^verbatim>\<open>int(float(x))\<close>: \<^verbatim>\<open>float(None)\<close> raises \<^verbatim>\<open>TypeError\<close>, an integer too large for a
  double and an infinite float raise \<^verbatim>\<open>OverflowError\<close>, a string that is no float
  literal and a NaN raise \<^verbatim>\<open>ValueError\<close>.
\<close>

definition int_of_float :: "pyval \<Rightarrow> pyexc + int" where
  "int_of_float v =
     (case v of
        PNone \<Rightarrow> Inl TypeError
      | PInt i \<Rightarrow>
          (case double_trunc \<bar>i\<bar> 1 of
             None \<Rightarrow> Inl OverflowError
           | Some m \<Rightarrow> Inr (if i < 0 then - m else m))
      | PStr s \<Rightarrow>
          (case parse_float s of
             None \<Rightarrow> Inl ValueError
           | Some NotANumber \<Rightarrow> Inl ValueError
           | Some Infinite \<Rightarrow> Inl OverflowError
           | Some (Finite neg n d) \<Rightarrow>
               (case double_trunc n d of
                  None \<Rightarrow> Inl OverflowError
                | Some m \<Rightarrow> Inr (if neg then - m else m))))"

section \<open>Registration type (\<^verbatim>\<open>determine_reg_type\<close>)\<close>

text \<open>
  \<^verbatim>\<open>lp in first_page_str\<close> is Python's substring test when \<^verbatim>\<open>lp\<close> is a string and
  raises \<^verbatim>\<open>TypeError\<close> otherwise. The loop stops at the first identifier that matches
  (\<^verbatim>\<open>break\<close>), so an identifier after it is never tested.
\<close>

fun match_loop :: "pyval list \<Rightarrow> string \<Rightarrow> pyexc + bool" where
  "match_loop [] page = Inr False"
| "match_loop (PStr lp # lps) page = (if sublist lp page then Inr True else match_loop lps page)"
| "match_loop (_ # lps) page = Inl TypeError"

text \<open>\<^verbatim>\<open>str(first_page) if first_page is not None else ""\<close>\<close>

fun page_str :: "pyval \<Rightarrow> string" where
  "page_str PNone = []"
| "page_str v = py_str v"

definition determine_reg_type :: "pyval \<Rightarrow> pyval \<Rightarrow> pyval list \<Rightarrow> string" where
  "determine_reg_type first_page last_page landing_pages_list =
     (let first_page_str = page_str first_page;
          last_page_str = page_str last_page
      in case match_loop landing_pages_list first_page_str of
           Inl e \<Rightarrow> ''Error''
         | Inr first_match \<Rightarrow>
             (case match_loop landing_pages_list last_page_str of
                Inl e \<Rightarrow> ''Error''
              | Inr last_match \<Rightarrow>
                  if first_page_str = last_page_str \<and> first_match then ''Direct''
                  else if first_match \<and> \<not> last_match then ''Indirect''
                  else if last_match then ''Direct''
                  else ''Other''))"

text \<open>Letter case of a code point below 256, as \<^verbatim>\<open>str.lower\<close> maps it.\<close>

definition lower_char :: "char \<Rightarrow> char" where
  "lower_char c =
     (let n = (of_char c :: nat)
      in if (65 \<le> n \<and> n \<le> 90) \<or> (192 \<le> n \<and> n \<le> 222 \<and> n \<noteq> 215) then char_of (n + 32)
         else c)"

definition differs_only_in_case :: "string \<Rightarrow> string \<Rightarrow> bool" where
  "differs_only_in_case s t = (s \<noteq> t \<and> map lower_char s = map lower_char t)"

section \<open>The sheets service and the local state\<close>

text \<open>
  A sheet is a list of rows, a row a list of cells. The remote service is outside the
  program: \<open>svc k\<close> is what the \<open>k\<close>-th remote call of a run gets back, either a table
  (the \<^verbatim>\<open>values\<close> of the response, empty when the key is absent) or an exception. The
  local state holds the number of remote calls made, the trace of the effects in the
  order they happened, the CSV backup files, the counter file (\<open>None\<close> when it is
  missing or unreadable), the files that cannot be opened for writing, and the clock
  reading that \<^verbatim>\<open>datetime.now().isoformat()\<close> returns. \<^verbatim>\<open>time.sleep\<close> and logging
  change none of these and are left out.
\<close>

type_synonym row = "pyval list"

datatype reply = Returns "row list" | Raises pyexc

type_synonym service = "nat \<Rightarrow> reply"

datatype event =
    Get string
  | Append string "row list"
  | Update string "row list"
  | AddSheet string
  | Backup string "row list"
  | SaveCounters

record world =
  calls :: nat
  trace :: "event list"
  csv_files :: "string \<rightharpoonup> row list"
  counter_file :: "(string \<rightharpoonup> pyval) option"
  unwritable :: "string set"
  clock :: string

definition remote :: "service \<Rightarrow> event \<Rightarrow> world \<Rightarrow> reply \<times> world" where
  "remote svc ev w = (svc (calls w), w\<lparr>calls := calls w + 1, trace := trace w @ [ev]\<rparr>)"

subsection \<open>Key resolver (\<^verbatim>\<open>get_existing_sheet_ids\<close>)\<close>

text \<open>\<^verbatim>\<open>str(row[0]).strip().replace('.', '').isdigit()\<close>\<close>

definition looks_numeric :: "pyval \<Rightarrow> bool" where
  "looks_numeric c = isdigit (remove_dots (strip (py_str c)))"

text \<open>
  The loop over the rows after the header. The inner \<^verbatim>\<open>try\<close> catches \<^verbatim>\<open>ValueError\<close>,
  \<^verbatim>\<open>TypeError\<close> and \<^verbatim>\<open>IndexError\<close>; any other exception leaves the loop, and the set
  keeps what was added before (it is the one set object of the whole call).
\<close>

fun scan_ids :: "row list \<Rightarrow> int set \<Rightarrow> int set \<times> pyexc option" where
  "scan_ids [] existing_ids = (existing_ids, None)"
| "scan_ids (r # rows) existing_ids =
     (if r \<noteq> [] \<and> truthy (hd r)
      then if looks_numeric (hd r)
           then (case int_of_float (hd r) of
                   Inr i \<Rightarrow> scan_ids rows (insert i existing_ids)
                 | Inl e \<Rightarrow>
                     if e = ValueError \<or> e = TypeError \<or> e = IndexError
                     then scan_ids rows existing_ids
                     else (existing_ids, Some e))
           else scan_ids rows existing_ids
      else scan_ids rows existing_ids)"

text \<open>\<^verbatim>\<open>if values and len(values) > 0: values.pop(0)\<close>\<close>

definition pop_header :: "row list \<Rightarrow> row list" where
  "pop_header values = (case values of [] \<Rightarrow> [] | header # rest \<Rightarrow> rest)"

function get_ids_attempts ::
  "service \<Rightarrow> string \<Rightarrow> nat \<Rightarrow> nat \<Rightarrow> int set \<Rightarrow> world \<Rightarrow> int set \<times> world" where
  "get_ids_attempts svc sheet_name retries attempt existing_ids w =
     (if retries \<le> attempt then (existing_ids, w)
      else case remote svc (Get sheet_name) w of
             (Raises e, w1) \<Rightarrow>
               get_ids_attempts svc sheet_name retries (attempt + 1) existing_ids w1
           | (Returns values, w1) \<Rightarrow>
               (case scan_ids (pop_header values) existing_ids of
                  (ids, None) \<Rightarrow> (ids, w1)
                | (ids, Some e) \<Rightarrow>
                    get_ids_attempts svc sheet_name retries (attempt + 1) ids w1))"
  by pat_completeness auto
termination
  by (relation "measure (\<lambda>(svc, sheet_name, retries, attempt, existing_ids, w). retries - attempt)")
    auto

declare get_ids_attempts.simps [simp del]

definition get_existing_sheet_ids :: "service \<Rightarrow> string \<Rightarrow> nat \<Rightarrow> world \<Rightarrow> int set \<times> world" where
  "get_existing_sheet_ids svc sheet_name retries w =
     get_ids_attempts svc sheet_name retries 0 {} w"

subsection \<open>Counter ledger\<close>

text \<open>
  The ledger is the JSON object of the counter file: a dictionary from strings to
  integers and strings.
\<close>

definition CAMPAIGN_COUNTER_FILE :: string where
  "CAMPAIGN_COUNTER_FILE = ''campaign_counters.json''"

definition zero_counters :: "string \<rightharpoonup> pyval" where
  "zero_counters =
     [''course_success_count'' \<mapsto> PInt 0, ''course_failed_count'' \<mapsto> PInt 0,
      ''ad_success_count'' \<mapsto> PInt 0, ''ad_failed_count'' \<mapsto> PInt 0,
      ''total_processed'' \<mapsto> PInt 0]"

definition load_local_counters :: "world \<Rightarrow> (string \<rightharpoonup> pyval)" where
  "load_local_counters w = (case counter_file w of None \<Rightarrow> zero_counters | Some counters \<Rightarrow> counters)"

text \<open>A failed write of the counter file is logged and otherwise ignored.\<close>

definition save_local_counters :: "(string \<rightharpoonup> pyval) \<Rightarrow> world \<Rightarrow> world" where
  "save_local_counters counters w =
     (if CAMPAIGN_COUNTER_FILE \<in> unwritable w then w
      else w\<lparr>counter_file := Some counters, trace := trace w @ [SaveCounters]\<rparr>)"

text \<open>\<^verbatim>\<open>counters.get(key, 0) + new_count\<close>: adding an integer to a string or to \<^verbatim>\<open>None\<close> raises.\<close>

definition get_plus :: "(string \<rightharpoonup> pyval) \<Rightarrow> string \<Rightarrow> int \<Rightarrow> pyexc + pyval" where
  "get_plus counters key new_count =
     (case counters key of
        None \<Rightarrow> Inr (PInt (0 + new_count))
      | Some (PInt c) \<Rightarrow> Inr (PInt (c + new_count))
      | Some _ \<Rightarrow> Inl TypeError)"

definition update_counters_after_processing ::
  "(string \<rightharpoonup> pyval) \<Rightarrow> string \<Rightarrow> int \<Rightarrow> string \<Rightarrow> string \<Rightarrow> string
     \<Rightarrow> pyexc + (string \<rightharpoonup> pyval)" where
  "update_counters_after_processing counters sheet_type new_count campaign environment now =
     (case get_plus counters (sheet_type @ ''_count'') new_count of
        Inl e \<Rightarrow> Inl e
      | Inr kind_count \<Rightarrow>
          (case get_plus counters ''total_processed'' new_count of
             Inl e \<Rightarrow> Inl e
           | Inr total_processed \<Rightarrow>
               Inr (counters(sheet_type @ ''_count'' \<mapsto> kind_count,
                             ''total_processed'' \<mapsto> total_processed,
                             ''last_updated'' \<mapsto> PStr now,
                             ''campaign'' \<mapsto> PStr campaign,
                             ''environment'' \<mapsto> PStr environment))))"

subsection \<open>Local backup (\<^verbatim>\<open>save_to_csv\<close>)\<close>

text \<open>
  The file is opened in mode \<^verbatim>\<open>'w'\<close>: what it held is replaced by the rows written. An
  error is logged and raised again.
\<close>

definition save_to_csv :: "row list \<Rightarrow> string \<Rightarrow> world \<Rightarrow> pyexc + world" where
  "save_to_csv data filename w =
     (if 0 < length data
      then if filename \<in> unwritable w then Inl IOError
           else Inr (w\<lparr>csv_files := (csv_files w)(filename \<mapsto> data),
                       trace := trace w @ [Backup filename data]\<rparr>)
      else Inr w)"

subsection \<open>Write verification (\<^verbatim>\<open>verify_write_success\<close>)\<close>

text \<open>
  The identifiers of the re-read column. Here the conversion is not inside a \<^verbatim>\<open>try\<close> of
  its own: an exception leaves the function through its outer handler.
\<close>

fun current_ids_loop :: "row list \<Rightarrow> int set \<Rightarrow> pyexc + int set" where
  "current_ids_loop [] current_ids = Inr current_ids"
| "current_ids_loop (r # rows) current_ids =
     (if r \<noteq> [] \<and> truthy (hd r) \<and> isdigit (remove_dots (py_str (hd r)))
      then (case int_of_float (hd r) of
              Inl e \<Rightarrow> Inl e
            | Inr i \<Rightarrow> current_ids_loop rows (insert i current_ids))
      else current_ids_loop rows current_ids)"

definition reread_ids :: "row list \<Rightarrow> pyexc + int set" where
  "reread_ids values = (if 1 < length values then current_ids_loop (tl values) {} else Inr {})"

text \<open>
  The presence check over the written rows: \<^verbatim>\<open>ValueError\<close> and \<^verbatim>\<open>IndexError\<close> skip the
  row, any other exception leaves the function.
\<close>

fun check_written :: "row list \<Rightarrow> int set \<Rightarrow> bool \<Rightarrow> pyexc + bool" where
  "check_written [] current_ids verification_failed = Inr verification_failed"
| "check_written (r # rows) current_ids verification_failed =
     (if r \<noteq> [] \<and> 0 < length r
      then (case int_of_float (hd r) of
              Inr record_id \<Rightarrow>
                if record_id \<notin> current_ids then check_written rows current_ids True
                else check_written rows current_ids verification_failed
            | Inl e \<Rightarrow>
                if e = ValueError \<or> e = IndexError
                then check_written rows current_ids verification_failed
                else Inl e)
      else check_written rows current_ids verification_failed)"

definition verify_write_success :: "service \<Rightarrow> string \<Rightarrow> row list \<Rightarrow> world \<Rightarrow> bool \<times> world" where
  "verify_write_success svc sheet_name written_data w =
     (if length written_data \<le> 0 then (True, w)
      else case remote svc (Get sheet_name) w of
             (Raises e, w1) \<Rightarrow> (False, w1)
           | (Returns values, w1) \<Rightarrow>
               (case reread_ids values of
                  Inl e \<Rightarrow> (False, w1)
                | Inr current_ids \<Rightarrow>
                    (case check_written written_data current_ids False of
                       Inl e \<Rightarrow> (False, w1)
                     | Inr verification_failed \<Rightarrow> (\<not> verification_failed, w1))))"

subsection \<open>Write, verify, retry (\<^verbatim>\<open>write_to_google_sheets_robust\<close>)\<close>

function write_attempts ::
  "service \<Rightarrow> string \<Rightarrow> row list \<Rightarrow> nat \<Rightarrow> nat \<Rightarrow> world \<Rightarrow> bool \<times> world" where
  "write_attempts svc sheet_name data retries attempt w =
     (if retries \<le> attempt then (False, w)
      else case remote svc (Append sheet_name data) w of
             (Raises e, w1) \<Rightarrow> write_attempts svc sheet_name data retries (attempt + 1) w1
           | (Returns result, w1) \<Rightarrow>
               (case verify_write_success svc sheet_name data w1 of
                  (True, w2) \<Rightarrow> (True, w2)
                | (False, w2) \<Rightarrow>
                    if attempt < retries - 1
                    then write_attempts svc sheet_name data retries (attempt + 1) w2
                    else (False, w2)))"
  by pat_completeness auto
termination
  by (relation "measure (\<lambda>(svc, sheet_name, data, retries, attempt, w). retries - attempt)") auto

declare write_attempts.simps [simp del]

definition write_to_google_sheets_robust ::
  "service \<Rightarrow> string \<Rightarrow> row list \<Rightarrow> nat \<Rightarrow> world \<Rightarrow> bool \<times> world" where
  "write_to_google_sheets_robust svc sheet_name data retries w =
     (if data = [] then (True, w) else write_attempts svc sheet_name data retries 0 w)"

subsection \<open>\<^verbatim>\<open>append_to_sheet\<close>\<close>

definition COURSE_SUCCESS_CSV_BACKUP :: string where
  "COURSE_SUCCESS_CSV_BACKUP = ''campaign_course_success_backup.csv''"

definition COURSE_FAILED_CSV_BACKUP :: string where
  "COURSE_FAILED_CSV_BACKUP = ''campaign_course_failed_backup.csv''"

definition AD_SUCCESS_CSV_BACKUP :: string where
  "AD_SUCCESS_CSV_BACKUP = ''campaign_ad_success_backup.csv''"

definition AD_FAILED_CSV_BACKUP :: string where
  "AD_FAILED_CSV_BACKUP = ''campaign_ad_failed_backup.csv''"

definition backup_filename :: "string \<Rightarrow> string" where
  "backup_filename sheet_type =
     (if sublist ''course'' sheet_type \<and> sublist ''success'' sheet_type
        then COURSE_SUCCESS_CSV_BACKUP
      else if sublist ''course'' sheet_type \<and> sublist ''failed'' sheet_type
        then COURSE_FAILED_CSV_BACKUP
      else if sublist ''ad'' sheet_type \<and> sublist ''success'' sheet_type
        then AD_SUCCESS_CSV_BACKUP
      else if sublist ''ad'' sheet_type \<and> sublist ''failed'' sheet_type
        then AD_FAILED_CSV_BACKUP
      else ''campaign_'' @ sheet_type @ ''_backup.csv'')"

text \<open>
  Every exception inside \<^verbatim>\<open>append_to_sheet\<close> ends in its handler, which returns 0. The
  counters are loaded, updated and saved only in the branch of a successful write.
\<close>

definition append_to_sheet ::
  "service \<Rightarrow> string \<Rightarrow> row list \<Rightarrow> string \<Rightarrow> string \<Rightarrow> string \<Rightarrow> world \<Rightarrow> int \<times> world" where
  "append_to_sheet svc sheet_name data sheet_type campaign environment w =
     (if data = [] then (0, w)
      else case save_to_csv data (backup_filename sheet_type) w of
             Inl e \<Rightarrow> (0, w)
           | Inr w1 \<Rightarrow>
               (case write_to_google_sheets_robust svc sheet_name data 3 w1 of
                  (True, w2) \<Rightarrow>
                    (let updated_cells = int (length data) * int (length (hd data));
                         counters = load_local_counters w2
                     in case update_counters_after_processing counters sheet_type
                               (int (length data)) campaign environment (clock w2) of
                          Inl e \<Rightarrow> (0, w2)
                        | Inr updated_counters \<Rightarrow>
                            (updated_cells, save_local_counters updated_counters w2))
                | (False, w2) \<Rightarrow> (0, w2)))"

subsection \<open>Predicates used to state the properties of the pipeline\<close>

fun is_remote :: "event \<Rightarrow> bool" where
  "is_remote (Backup f rows) = False"
| "is_remote SaveCounters = False"
| "is_remote ev = True"

text \<open>\<open>only_remote w w'\<close>: from \<open>w\<close> to \<open>w'\<close> nothing local changed, only remote calls were made.\<close>

definition only_remote :: "world \<Rightarrow> world \<Rightarrow> bool" where
  "only_remote w w' =
     (csv_files w' = csv_files w \<and> counter_file w' = counter_file w
      \<and> unwritable w' = unwritable w \<and> clock w' = clock w \<and> calls w \<le> calls w'
      \<and> prefix (trace w) (trace w')
      \<and> list_all is_remote (drop (length (trace w)) (trace w')))"

text \<open>
  \<open>id_missing data values\<close>: the re-read column \<open>values\<close> converts, and the identifier of
  some written row is not among its identifiers.
\<close>

definition id_missing :: "row list \<Rightarrow> row list \<Rightarrow> bool" where
  "id_missing data values =
     (case reread_ids values of
        Inl e \<Rightarrow> False
      | Inr current_ids \<Rightarrow>
          list_ex (\<lambda>r. r \<noteq> [] \<and> (case int_of_float (hd r) of
                                    Inl e \<Rightarrow> False
                                  | Inr record_id \<Rightarrow> record_id \<notin> current_ids)) data)"

text \<open>
  \<open>verification_fails_at svc k data\<close>: the append sent as call \<open>k\<close> is accepted, and the
  re-read that follows it misses a written identifier.
\<close>

definition verification_fails_at :: "service \<Rightarrow> nat \<Rightarrow> row list \<Rightarrow> bool" where
  "verification_fails_at svc k data =
     (case svc k of
        Raises e \<Rightarrow> False
      | Returns result \<Rightarrow>
          (case svc (k + 1) of Raises e \<Rightarrow> False | Returns values \<Rightarrow> id_missing data values))"

text \<open>The count a ledger holds under a key, 0 when the key is absent.\<close>

definition count_of :: "(string \<rightharpoonup> pyval) \<Rightarrow> string \<Rightarrow> int" where
  "count_of counters key = (case counters key of Some (PInt c) \<Rightarrow> c | _ \<Rightarrow> 0)"

text \<open>\<open>extends before after\<close>: the file still starts with what it held before.\<close>

definition extends :: "row list option \<Rightarrow> row list option \<Rightarrow> bool" where
  "extends before after =
     (case before of
        None \<Rightarrow> True
      | Some old \<Rightarrow> (case after of None \<Rightarrow> False | Some new \<Rightarrow> prefix old new))"

subsection \<open>A first run and two simple services, for concrete runs\<close>

text \<open>No local file exists yet and every file can be written.\<close>

definition fresh_world :: world where
  "fresh_world =
     \<lparr>calls = 0, trace = [], csv_files = Map.empty, counter_file = None, unwritable = {},
      clock = ''2025-06-01T10:00:00''\<rparr>"

text \<open>A service that accepts every call and answers every read with the same table.\<close>

definition fixed_service :: "row list \<Rightarrow> service" where
  "fixed_service table k = Returns table"

subsection \<open>Predicates used to state the properties of the key resolver\<close>

text \<open>The identifier a data row contributes to the resolved set, if any.\<close>

definition row_id :: "row \<Rightarrow> int option" where
  "row_id r =
     (if r \<noteq> [] \<and> truthy (hd r) \<and> looks_numeric (hd r)
      then (case int_of_float (hd r) of Inl e \<Rightarrow> None | Inr i \<Rightarrow> Some i)
      else None)"

text \<open>
  A data row whose cell passes the digit test and whose value is beyond the range of a
  double: \<^verbatim>\<open>int(float(...))\<close> raises \<^verbatim>\<open>OverflowError\<close>, which the inner handler does
  not catch.
\<close>

definition overflows :: "row \<Rightarrow> bool" where
  "overflows r =
     (r \<noteq> [] \<and> truthy (hd r) \<and> looks_numeric (hd r) \<and> int_of_float (hd r) = Inl OverflowError)"

section \<open>Extraction queries (\<^verbatim>\<open>build_course_query\<close>, \<^verbatim>\<open>build_landing_page_query\<close>)\<close>

text \<open>
  The tables of \<^verbatim>\<open>config_campaign.py\<close> are parameters of the model: every function that
  reads one takes the configuration as its first argument. A Python dictionary is a map.
\<close>

record config =
  status_types :: "string \<rightharpoonup> int"
  course_types :: "string \<rightharpoonup> int list"
  course_ids :: "string \<rightharpoonup> int list"
  landing_pages :: "string \<rightharpoonup> pyval list"
  date_filters :: "string \<rightharpoonup> string"
  exclude_filters :: "string \<rightharpoonup> string"
  default_sheet_names :: "string \<rightharpoonup> string"
  campaign_sheet_names :: "string \<rightharpoonup> (string \<rightharpoonup> string)"
  merge_sheet :: "string \<rightharpoonup> (string \<rightharpoonup> string)"
  juspay_status :: "pyval \<rightharpoonup> string"

text \<open>\<^verbatim>\<open>sep.join(xs)\<close>\<close>

fun join :: "string \<Rightarrow> string list \<Rightarrow> string" where
  "join sep [] = []"
| "join sep [x] = x"
| "join sep (x # y # ys) = x @ sep @ join sep (y # ys)"

text \<open>The single quote and the line break, which a string literal cannot hold.\<close>

definition sq :: string where
  "sq = [CHR 0x27]"

definition nl :: string where
  "nl = [CHR 0x0A]"

text \<open>
  The text of the query before and after the \<^verbatim>\<open>WHERE\<close> condition; it is the same in both
  builders.
\<close>

definition sql_head :: string where
  "sql_head =
     nl @ concat (map (\<lambda>line. line @ nl)
     [''    SELECT '',
      ''        cpd.`id`,'',
      ''        cpd.`entity_id`,'',
      ''        ce.`event_type_id`,'',
      ''        ce.`id` as eid,'',
      ''        ce.`title`,'',
      ''        pei.`accounting_course_id_201`,'',
      ''        CONCAT(cpd.`first_name`, '' @ sq @ '' '' @ sq @ '', cpd.`last_name`) AS `name`,'',
      ''        cpd.`participant_email`,'',
      ''        cpd.`participant_phone`,'',
      ''        cpd.`pincode`,'',
      ''        cpd.`submitted_on`,'',
      ''        cpd.`referal_site`,'',
      ''        cpd.`reg_utm_url`,'',
      ''        pt.`pg_res_msg`,'',
      ''        pt.`pg_res_code`,'',
      ''        pt.`id` AS ptid'',
      ''    FROM '',
      ''        `civicrm_course_participants_details` cpd'',
      ''    INNER JOIN '',
      ''        `civicrm_event` ce ON ce.`id` = cpd.`entity_id`'',
      ''    INNER JOIN '',
      ''        `civicrm_value_private_event_information_33` pei ON pei.`entity_id` = ce.`id`'',
      ''    INNER JOIN '',
      ''        `payment_transactions` pt ON pt.`participant_id` = cpd.`id`''])
     @ ''    WHERE ''"

definition sql_tail :: string where
  "sql_tail =
     nl @ concat (map (\<lambda>line. line @ nl)
     [''    GROUP BY cpd.`id`'',
      ''    ORDER BY `submitted_on` ASC''])
     @ ''    ''"

text \<open>
  The exclusion clause for the known keys. \<^verbatim>\<open>existing_ids\<close> is a Python set; the list is
  the order in which the set is iterated.
\<close>

definition exclusion_clause :: "int list \<Rightarrow> string" where
  "exclusion_clause existing_ids =
     ''(cpd.`id` NOT IN ('' @ join '','' (map str_of_int existing_ids) @ ''))''"

text \<open>
  The status clause: \<^verbatim>\<open>success\<close> selects the codes 5 and 19, any other status is looked
  up in \<^verbatim>\<open>status_types\<close>, which raises \<^verbatim>\<open>KeyError\<close> for an unknown name.
\<close>

definition status_clause :: "config \<Rightarrow> string \<Rightarrow> pyexc + string" where
  "status_clause cfg status_type =
     (if status_type = ''success'' then Inr ''cpd.`participant_status` IN (5, 19)''
      else case status_types cfg status_type of
             None \<Rightarrow> Inl KeyError
           | Some status_code \<Rightarrow> Inr (''cpd.`participant_status` = '' @ str_of_int status_code))"

definition clock_skew_clause :: string where
  "clock_skew_clause =
     ''cpd.`submitted_on` <= DATE_SUB(DATE_ADD(NOW(), INTERVAL 5.5 HOUR), INTERVAL 5 MINUTE)''"

definition course_where_clauses :: "config \<Rightarrow> string \<Rightarrow> string \<Rightarrow> int list \<Rightarrow> pyexc + string list" where
  "course_where_clauses cfg campaign status_type existing_ids =
     (case status_clause cfg status_type of
        Inl e \<Rightarrow> Inl e
      | Inr status \<Rightarrow>
          Inr ((case course_types cfg campaign of
                  None \<Rightarrow> []
                | Some types \<Rightarrow>
                    [''ce.`event_type_id` IN ('' @ join '','' (map str_of_int types) @ '')''])
               @ (case course_ids cfg campaign of
                    None \<Rightarrow> []
                  | Some ids \<Rightarrow>
                      [''cpd.`entity_id` IN ('' @ join '','' (map str_of_int ids) @ '')''])
               @ (if existing_ids \<noteq> [] then [exclusion_clause existing_ids] else [])
               @ (case date_filters cfg campaign of None \<Rightarrow> [] | Some date_filter \<Rightarrow> [date_filter])
               @ [status]
               @ [clock_skew_clause]
               @ (case exclude_filters cfg campaign of
                    None \<Rightarrow> []
                  | Some exclude_filter \<Rightarrow> if exclude_filter \<noteq> [] then [exclude_filter] else [])))"

definition build_course_query :: "config \<Rightarrow> string \<Rightarrow> string \<Rightarrow> int list \<Rightarrow> pyexc + string" where
  "build_course_query cfg campaign status_type existing_ids =
     (case course_where_clauses cfg campaign status_type existing_ids of
        Inl e \<Rightarrow> Inl e
      | Inr where_clauses \<Rightarrow> Inr (sql_head @ join '' AND '' where_clauses @ sql_tail))"

text \<open>The three \<^verbatim>\<open>LIKE\<close> conditions of one landing-page identifier.\<close>

definition landing_page_conditions :: "pyval \<Rightarrow> string list" where
  "landing_page_conditions lp =
     [''cpd.`reg_utm_url` LIKE '' @ sq @ ''%'' @ py_str lp @ ''%'' @ sq,
      ''cpd.`referal_site` LIKE '' @ sq @ ''%'' @ py_str lp @ ''%'' @ sq,
      ''cpd.`reg_utm_url` LIKE '' @ sq @ ''%greferrer=%'' @ py_str lp @ ''%'' @ sq]"

definition landing_page_where_clauses ::
  "config \<Rightarrow> string \<Rightarrow> string \<Rightarrow> int list \<Rightarrow> pyexc + string list" where
  "landing_page_where_clauses cfg campaign status_type existing_ids =
     (case status_clause cfg status_type of
        Inl e \<Rightarrow> Inl e
      | Inr status \<Rightarrow>
          Inr ((case landing_pages cfg campaign of
                  None \<Rightarrow> []
                | Some lps \<Rightarrow>
                    [''('' @ join '' OR '' (concat (map landing_page_conditions lps)) @ '')''])
               @ (if existing_ids \<noteq> [] then [exclusion_clause existing_ids] else [])
               @ (case date_filters cfg campaign of None \<Rightarrow> [] | Some date_filter \<Rightarrow> [date_filter])
               @ [status]
               @ [clock_skew_clause]))"

definition build_landing_page_query :: "config \<Rightarrow> string \<Rightarrow> string \<Rightarrow> int list \<Rightarrow> pyexc + string" where
  "build_landing_page_query cfg campaign status_type existing_ids =
     (case landing_page_where_clauses cfg campaign status_type existing_ids of
        Inl e \<Rightarrow> Inl e
      | Inr where_clauses \<Rightarrow> Inr (sql_head @ join '' AND '' where_clauses @ sql_tail))"

subsection \<open>Reading an exclusion clause back\<close>

text \<open>
  \<open>is_exclusion_clause c\<close>: the clause excludes identifiers. \<open>listed_keys c\<close>: the keys
  between the parentheses of such a clause, split at the commas and read as decimal
  numerals with an optional minus sign.
\<close>

definition is_exclusion_clause :: "string \<Rightarrow> bool" where
  "is_exclusion_clause c = prefix ''(cpd.`id` NOT IN ('' c"

fun split_commas :: "string \<Rightarrow> string list" where
  "split_commas [] = [[]]"
| "split_commas (c # cs) =
     (if c = CHR '','' then [] # split_commas cs
      else (c # hd (split_commas cs)) # tl (split_commas cs))"

definition read_int :: "string \<Rightarrow> int" where
  "read_int s = (case s of [] \<Rightarrow> 0 | c # t \<Rightarrow> if c = CHR ''-'' then - int_of_digits t else int_of_digits s)"

definition listed_keys :: "string \<Rightarrow> int list" where
  "listed_keys c =
     map read_int (split_commas (take (length c - 20) (drop 18 c)))"

text \<open>
  \<open>filters_are_not_exclusions cfg campaign\<close>: neither the date filter nor the exclude
  filter configured for the campaign is itself a clause of the form of the exclusion
  clause.
\<close>

definition filters_are_not_exclusions :: "config \<Rightarrow> string \<Rightarrow> bool" where
  "filters_are_not_exclusions cfg campaign =
     ((case date_filters cfg campaign of None \<Rightarrow> True | Some f \<Rightarrow> \<not> is_exclusion_clause f)
      \<and> (case exclude_filters cfg campaign of None \<Rightarrow> True | Some f \<Rightarrow> \<not> is_exclusion_clause f))"

text \<open>
  The configuration of \<^verbatim>\<open>config_campaign.py\<close> restricted to the campaign
  \<^verbatim>\<open>anand-utsav-2025\<close> (the status, default sheet name, exclude filter and payment
  status tables are not specific to a campaign and are kept whole).
\<close>

definition anand_utsav_config :: config where
  "anand_utsav_config =
     \<lparr>status_types = [''success'' \<mapsto> 5, ''failed'' \<mapsto> 1],
      course_types = Map.empty,
      course_ids = [''anand-utsav-2025'' \<mapsto> [882646, 882647, 882648]],
      landing_pages = [''anand-utsav-2025'' \<mapsto> [PStr ''lp/anand-utsav'']],
      date_filters = [''anand-utsav-2025'' \<mapsto> ''cpd.`submitted_on` > '' @ sq @ ''2025-06-01'' @ sq],
      exclude_filters =
        [''tealbox-ombw-mar2025'' \<mapsto> ''cpd.`id` not in (select lead_id from civicrm_voucher)''],
      default_sheet_names =
        [''course_success'' \<mapsto> ''Ctr Course Success'', ''course_failed'' \<mapsto> ''Ctr Course Failed'',
         ''ad_success'' \<mapsto> ''Ad LP Success'', ''ad_failed'' \<mapsto> ''Ad LP Failed''],
      campaign_sheet_names =
        [''anand-utsav-2025'' \<mapsto>
           [''course_success'' \<mapsto> ''AU Ctr Course Success'',
            ''course_failed'' \<mapsto> ''AU Ctr Course Failed'',
            ''ad_success'' \<mapsto> ''AU 2025 LP Success'',
            ''ad_failed'' \<mapsto> ''AU 2025 LP Failed'']],
      merge_sheet =
        [''anand-utsav-2025'' \<mapsto>
           [''merge_success'' \<mapsto> ''AU 2025 All Success'',
            ''merge_failed'' \<mapsto> ''AU 2025 All Failed'']],
      juspay_status =
        [PInt 10 \<mapsto> ''Newly created order. This is the status if transaction is not triggered for an order'',
         PInt 20 \<mapsto> ''Transaction is pending. Juspay system is not able to find a gateway to process a transaction'',
         PInt 21 \<mapsto> ''Successful transaction'',
         PInt 22 \<mapsto> ''User input is not accepted by the underlying PG'',
         PInt 23 \<mapsto> ''Authentication is in progress'',
         PInt 26 \<mapsto> ''User did not complete authentication'',
         PInt 27 \<mapsto> ''User completed authentication, but the bank refused the transaction.'',
         PInt 28 \<mapsto> ''Transaction status is pending from bank'',
         PInt 29 \<mapsto> ''COD Initiated Successfully'',
         PInt 36 \<mapsto> ''Transaction is automatically refunded'']\<rparr>"

section \<open>Merge reconciler (\<^verbatim>\<open>merge_sheets\<close>)\<close>

text \<open>\<^verbatim>\<open>get_sheet_name\<close> of \<^verbatim>\<open>config_campaign.py\<close>; a missing default raises \<^verbatim>\<open>KeyError\<close>.\<close>

definition get_sheet_name :: "config \<Rightarrow> string \<Rightarrow> string \<Rightarrow> pyexc + string" where
  "get_sheet_name cfg campaign sheet_type =
     (case (case campaign_sheet_names cfg campaign of
              None \<Rightarrow> None
            | Some names \<Rightarrow> names sheet_type) of
        Some name \<Rightarrow> Inr name
      | None \<Rightarrow>
          (case default_sheet_names cfg sheet_type of
             None \<Rightarrow> Inl KeyError
           | Some name \<Rightarrow> Inr name))"

text \<open>
  Reading a source sheet: up to three attempts, of which only \<^verbatim>\<open>HttpError\<close> is caught;
  after three such errors the sheet counts as empty. Any other exception leaves
  \<^verbatim>\<open>merge_sheets\<close> through its outer handler.
\<close>

function read_attempts :: "service \<Rightarrow> string \<Rightarrow> nat \<Rightarrow> world \<Rightarrow> (pyexc + row list) \<times> world" where
  "read_attempts svc sheet_name attempt w =
     (if 3 \<le> attempt then (Inr [], w)
      else case remote svc (Get sheet_name) w of
             (Returns rows, w1) \<Rightarrow> (Inr rows, w1)
           | (Raises e, w1) \<Rightarrow>
               if e = HttpError then read_attempts svc sheet_name (attempt + 1) w1
               else (Inl e, w1))"
  by pat_completeness auto
termination
  by (relation "measure (\<lambda>(svc, sheet_name, attempt, w). 3 - attempt)") auto

declare read_attempts.simps [simp del]

text \<open>The header row and the data rows of a table as read.\<close>

definition headers_of :: "row list \<Rightarrow> row" where
  "headers_of rows = (case rows of [] \<Rightarrow> [] | header # data \<Rightarrow> header)"

definition data_of :: "row list \<Rightarrow> row list" where
  "data_of rows = (case rows of [] \<Rightarrow> [] | header # data \<Rightarrow> data)"

text \<open>
  Reading the merge target: any exception is taken to mean that the sheet does not
  exist; the sheet is then created, and a failure of that call is only logged.
\<close>

definition read_merge_target :: "service \<Rightarrow> string \<Rightarrow> world \<Rightarrow> row list \<times> world" where
  "read_merge_target svc merge_sheet_name w =
     (case remote svc (Get merge_sheet_name) w of
        (Returns merge_rows, w1) \<Rightarrow> (merge_rows, w1)
      | (Raises e, w1) \<Rightarrow> ([], snd (remote svc (AddSheet merge_sheet_name) w1)))"

text \<open>A row counts when it is not empty and its first cell is truthy; its key is \<^verbatim>\<open>str(row[0])\<close>.\<close>

definition has_key :: "row \<Rightarrow> bool" where
  "has_key r = (r \<noteq> [] \<and> 0 < length r \<and> truthy (hd r))"

definition key_of :: "row \<Rightarrow> string" where
  "key_of r = py_str (hd r)"

definition existing_keys_of :: "row list \<Rightarrow> string set" where
  "existing_keys_of existing_data = key_of ` set (filter has_key existing_data)"

text \<open>\<^verbatim>\<open>while len(row) < len(headers): row.append("")\<close>\<close>

definition pad :: "nat \<Rightarrow> row \<Rightarrow> row" where
  "pad n r = r @ replicate (n - length r) (PStr [])"

text \<open>
  One of the two loops that fill \<^verbatim>\<open>new_merged_data\<close>. The dictionary keeps its keys in
  the order of their first insertion; assigning to a key that is present replaces the
  value in place.
\<close>

fun add_rows :: "row list \<Rightarrow> string set \<Rightarrow> nat \<Rightarrow> (string \<times> row) list \<Rightarrow> (string \<times> row) list" where
  "add_rows [] existing_keys n new_merged_data = new_merged_data"
| "add_rows (r # rows) existing_keys n new_merged_data =
     (if has_key r \<and> key_of r \<notin> existing_keys
      then add_rows rows existing_keys n (AList.update (key_of r) (pad n r) new_merged_data)
      else add_rows rows existing_keys n new_merged_data)"

text \<open>Course rows first, then ad rows, which overwrite a course row of the same key.\<close>

definition new_merged_data ::
  "row \<Rightarrow> row list \<Rightarrow> row list \<Rightarrow> string set \<Rightarrow> (string \<times> row) list" where
  "new_merged_data headers course_data ad_data existing_keys =
     add_rows ad_data existing_keys (length headers)
       (add_rows course_data existing_keys (length headers) [])"

text \<open>
  The rows one merge class appends, from the three tables as read: none when neither
  source has a header.
\<close>

definition merge_headers :: "row list \<Rightarrow> row list \<Rightarrow> row" where
  "merge_headers course_rows ad_rows =
     (if headers_of course_rows \<noteq> [] then headers_of course_rows else headers_of ad_rows)"

definition new_merged_rows :: "row list \<Rightarrow> row list \<Rightarrow> row list \<Rightarrow> row list" where
  "new_merged_rows course_rows ad_rows merge_rows =
     map snd (new_merged_data (merge_headers course_rows ad_rows) (data_of course_rows)
                (data_of ad_rows) (existing_keys_of (data_of merge_rows)))"

text \<open>Writing the header row: three attempts, only \<^verbatim>\<open>HttpError\<close> is caught.\<close>

function write_headers :: "service \<Rightarrow> string \<Rightarrow> row \<Rightarrow> nat \<Rightarrow> world \<Rightarrow> (pyexc + unit) \<times> world" where
  "write_headers svc merge_sheet_name headers attempt w =
     (if 3 \<le> attempt then (Inr (), w)
      else case remote svc (Update merge_sheet_name [headers]) w of
             (Returns result, w1) \<Rightarrow> (Inr (), w1)
           | (Raises e, w1) \<Rightarrow>
               if e = HttpError then write_headers svc merge_sheet_name headers (attempt + 1) w1
               else (Inl e, w1))"
  by pat_completeness auto
termination
  by (relation "measure (\<lambda>(svc, merge_sheet_name, headers, attempt, w). 3 - attempt)") auto

declare write_headers.simps [simp del]

text \<open>
  The body of the loop over the merge classes. It returns the running total, or the
  exception that leaves the loop.
\<close>

definition merge_one_type ::
  "config \<Rightarrow> service \<Rightarrow> string \<Rightarrow> (string \<rightharpoonup> string) \<Rightarrow> string \<Rightarrow> int \<Rightarrow> world
     \<Rightarrow> (pyexc + int) \<times> world" where
  "merge_one_type cfg svc campaign merge_sheets_config merge_type total_new_merges w =
     (case get_sheet_name cfg campaign (''course_'' @ merge_type) of
        Inl e \<Rightarrow> (Inl e, w)
      | Inr course_sheet_name \<Rightarrow>
     (case get_sheet_name cfg campaign (''ad_'' @ merge_type) of
        Inl e \<Rightarrow> (Inl e, w)
      | Inr ad_sheet_name \<Rightarrow>
     (case merge_sheets_config (''merge_'' @ merge_type) of
        None \<Rightarrow> (Inr total_new_merges, w)
      | Some merge_sheet_name \<Rightarrow>
          if merge_sheet_name = [] then (Inr total_new_merges, w)
          else
     (case read_attempts svc course_sheet_name 0 w of
        (Inl e, w1) \<Rightarrow> (Inl e, w1)
      | (Inr course_rows, w1) \<Rightarrow>
     (case read_attempts svc ad_sheet_name 0 w1 of
        (Inl e, w2) \<Rightarrow> (Inl e, w2)
      | (Inr ad_rows, w2) \<Rightarrow>
          if merge_headers course_rows ad_rows = [] then (Inr total_new_merges, w2)
          else
     (case read_merge_target svc merge_sheet_name w2 of
        (merge_rows, w3) \<Rightarrow>
          if new_merged_rows course_rows ad_rows merge_rows = [] then (Inr total_new_merges, w3)
          else
     (case (if headers_of merge_rows = []
            then write_headers svc merge_sheet_name (merge_headers course_rows ad_rows) 0 w3
            else (Inr (), w3)) of
        (Inl e, w4) \<Rightarrow> (Inl e, w4)
      | (Inr written, w4) \<Rightarrow>
     (case write_to_google_sheets_robust svc merge_sheet_name
             (new_merged_rows course_rows ad_rows merge_rows) 3 w4 of
        (True, w5) \<Rightarrow>
          (Inr (total_new_merges
                + int (length (new_merged_rows course_rows ad_rows merge_rows))), w5)
      | (False, w5) \<Rightarrow> (Inr total_new_merges, w5)))))))))"

text \<open>
  \<^verbatim>\<open>merge_sheets\<close>: nothing to do without a merge configuration; an exception in either
  class ends the function, which returns the total reached so far.
\<close>

definition merge_sheets :: "config \<Rightarrow> service \<Rightarrow> string \<Rightarrow> world \<Rightarrow> int \<times> world" where
  "merge_sheets cfg svc campaign w =
     (case merge_sheet cfg campaign of
        None \<Rightarrow> (0, w)
      | Some merge_sheets_config \<Rightarrow>
          (case merge_one_type cfg svc campaign merge_sheets_config ''success'' 0 w of
             (Inl e, w1) \<Rightarrow> (0, w1)
           | (Inr total_new_merges, w1) \<Rightarrow>
               (case merge_one_type cfg svc campaign merge_sheets_config ''failed''
                       total_new_merges w1 of
                  (Inl e, w2) \<Rightarrow> (total_new_merges, w2)
                | (Inr total_new_merges', w2) \<Rightarrow> (total_new_merges', w2))))"

subsection \<open>Predicates used to state the properties of the merge\<close>

text \<open>The last row of a table that counts and has the key \<open>k\<close>.\<close>

fun last_row :: "string \<Rightarrow> row list \<Rightarrow> row option" where
  "last_row k [] = None"
| "last_row k (r # rows) =
     (case last_row k rows of
        Some r' \<Rightarrow> Some r'
      | None \<Rightarrow> if has_key r \<and> key_of r = k then Some r else None)"

text \<open>A service that answers the calls in turn from a list, and with an empty table after it.\<close>

definition scripted_service :: "reply list \<Rightarrow> service" where
  "scripted_service replies k = (if k < length replies then replies ! k else Returns [])"

text \<open>The rows one merge class hands to the writer, and the events that change a sheet.\<close>

definition appended_rows :: "row list \<Rightarrow> row list \<Rightarrow> row list \<Rightarrow> row list" where
  "appended_rows course_rows ad_rows merge_rows =
     (if merge_headers course_rows ad_rows = [] then []
      else new_merged_rows course_rows ad_rows merge_rows)"

fun is_write :: "event \<Rightarrow> bool" where
  "is_write (Append sheet_name rows) = True"
| "is_write (Update sheet_name rows) = True"
| "is_write (AddSheet sheet_name) = True"
| "is_write ev = False"

section \<open>Record transformer (\<^verbatim>\<open>process_query_results\<close>)\<close>

text \<open>
  A database row is a dictionary from column names to values (the cursor is opened with
  \<^verbatim>\<open>dictionary=True\<close>); reading a column that is not there raises \<^verbatim>\<open>KeyError\<close>.
  \<open>need row k f\<close> reads the column \<open>k\<close> and goes on with its value.
\<close>

type_synonym dbrow = "string \<rightharpoonup> pyval"

definition need :: "dbrow \<Rightarrow> string \<Rightarrow> (pyval \<Rightarrow> pyexc + 'a) \<Rightarrow> pyexc + 'a" where
  "need row k f = (case row k of None \<Rightarrow> Inl KeyError | Some v \<Rightarrow> f v)"

text \<open>\<^verbatim>\<open>x or ""\<close>\<close>

definition or_empty :: "pyval \<Rightarrow> pyval" where
  "or_empty v = (if truthy v then v else PStr [])"

text \<open>
  The six assignments before the \<^verbatim>\<open>try\<close> of a row: text columns are coalesced to the
  empty string, the phone number becomes a string. They are outside the handler of the
  row.
\<close>

definition prepare_row :: "dbrow \<Rightarrow> pyexc + dbrow" where
  "prepare_row row =
     need row ''participant_email'' (\<lambda>email.
     need row ''participant_phone'' (\<lambda>phone.
     need row ''name'' (\<lambda>name.
     need row ''pincode'' (\<lambda>pincode.
     need row ''referal_site'' (\<lambda>referal_site.
     need row ''reg_utm_url'' (\<lambda>reg_utm_url.
       Inr (row(''participant_email'' \<mapsto> or_empty email,
                ''participant_phone'' \<mapsto> (if truthy phone then PStr (py_str phone) else PStr []),
                ''name'' \<mapsto> or_empty name,
                ''pincode'' \<mapsto> or_empty pincode,
                ''referal_site'' \<mapsto> or_empty referal_site,
                ''reg_utm_url'' \<mapsto> or_empty reg_utm_url))))))))"

subsection \<open>\<^verbatim>\<open>extract_utm_parameters\<close>\<close>

text \<open>
  \<^verbatim>\<open>urllib.parse.urlparse\<close> and \<^verbatim>\<open>parse_qs\<close> are a parameter of the model: \<open>parse_url u\<close> is
  the path of the URL and its query parameters, each with the list of its values, or the
  exception that parsing raises. The parameters are a dictionary with nine fixed keys;
  a function from the key to the value stands for it.
\<close>

type_synonym url_parser = "string \<Rightarrow> pyexc + string \<times> (string \<rightharpoonup> string list)"

definition param_keys :: "string list" where
  "param_keys =
     [''first_page'', ''greferrer'', ''utm_campaign'', ''utm_id'', ''utm_source'',
      ''utm_medium'', ''utm_term'', ''utm_content'', ''fbclid'']"

definition empty_params :: "string \<Rightarrow> pyval" where
  "empty_params k = PStr []"

text \<open>\<^verbatim>\<open>path.strip('/')\<close>\<close>

definition strip_slashes :: "string \<Rightarrow> string" where
  "strip_slashes s =
     rev (dropWhile (\<lambda>c. c = CHR ''/'') (rev (dropWhile (\<lambda>c. c = CHR ''/'') s)))"

text \<open>
  The parsing sits in a \<^verbatim>\<open>try\<close> of its own: an exception is logged and the parameters
  stay empty. The referral site stands in for a missing \<^verbatim>\<open>greferrer\<close> afterwards.
\<close>

definition params_from_url :: "url_parser \<Rightarrow> pyval \<Rightarrow> (string \<Rightarrow> pyval)" where
  "params_from_url parse_url url =
     (case (case url of PStr u \<Rightarrow> parse_url u | _ \<Rightarrow> Inl TypeError) of
        Inl e \<Rightarrow> empty_params
      | Inr (path, query_params) \<Rightarrow>
          (let params = (\<lambda>k. if k \<in> set param_keys
                              then (case query_params k of
                                      Some (v # vs) \<Rightarrow> PStr v
                                    | _ \<Rightarrow> PStr [])
                              else PStr [])
           in if \<not> truthy (params ''first_page'') \<and> path \<noteq> []
              then params(''first_page'' := PStr (strip_slashes path))
              else params))"

definition extract_utm_parameters :: "url_parser \<Rightarrow> pyval \<Rightarrow> pyval \<Rightarrow> (string \<Rightarrow> pyval)" where
  "extract_utm_parameters parse_url url referal_site =
     (let params = (if truthy url then params_from_url parse_url url else empty_params)
      in if \<not> truthy (params ''greferrer'') \<and> truthy referal_site
         then params(''greferrer'' := referal_site)
         else params)"

subsection \<open>One row\<close>

definition status_text :: "config \<Rightarrow> string \<Rightarrow> dbrow \<Rightarrow> pyexc + string" where
  "status_text cfg status_type row =
     (if status_type = ''failed''
      then need row ''pg_res_msg'' (\<lambda>pg_res_msg.
             if truthy pg_res_msg
             then need row ''pg_res_code'' (\<lambda>pg_res_code.
                    Inr (''Failed: '' @ py_str pg_res_msg @ '' (''
                         @ (case juspay_status cfg pg_res_code of None \<Rightarrow> [] | Some s \<Rightarrow> s)
                         @ '')''))
             else Inr ''Failed'')
      else Inr (if status_type = ''success'' then ''Success'' else ''Failed''))"

text \<open>The body of the \<^verbatim>\<open>try\<close> of a row, and the row of its handler.\<close>

definition formatted_row ::
  "config \<Rightarrow> url_parser \<Rightarrow> pyval list \<Rightarrow> string \<Rightarrow> dbrow \<Rightarrow> pyexc + row" where
  "formatted_row cfg parse_url campaign_landing_pages status_type row =
     need row ''reg_utm_url'' (\<lambda>reg_utm_url.
     need row ''referal_site'' (\<lambda>referal_site.
       (let utm_params = extract_utm_parameters parse_url reg_utm_url referal_site
        in case status_text cfg status_type row of
             Inl e \<Rightarrow> Inl e
           | Inr status \<Rightarrow>
               (let reg_type = determine_reg_type (utm_params ''first_page'')
                                 (utm_params ''greferrer'') campaign_landing_pages
                in need row ''id'' (\<lambda>ref.
                   need row ''accounting_course_id_201'' (\<lambda>course_id.
                   need row ''title'' (\<lambda>title.
                   need row ''name'' (\<lambda>name.
                   need row ''participant_email'' (\<lambda>email.
                   need row ''participant_phone'' (\<lambda>phone.
                   need row ''submitted_on'' (\<lambda>submitted_on.
                     Inr [ref, course_id, title, name, email, phone,
                          PStr (py_str submitted_on), PStr status, referal_site, reg_utm_url,
                          utm_params ''first_page'', utm_params ''greferrer'',
                          utm_params ''utm_campaign'', utm_params ''utm_id'',
                          utm_params ''utm_source'', utm_params ''utm_medium'',
                          utm_params ''utm_term'', utm_params ''utm_content'',
                          utm_params ''fbclid'', PStr reg_type])))))))))))"

definition fallback_row :: "dbrow \<Rightarrow> pyexc + row" where
  "fallback_row row =
     need row ''id'' (\<lambda>ref.
     need row ''accounting_course_id_201'' (\<lambda>course_id.
     need row ''title'' (\<lambda>title.
     need row ''name'' (\<lambda>name.
     need row ''participant_email'' (\<lambda>email.
     need row ''participant_phone'' (\<lambda>phone.
     need row ''submitted_on'' (\<lambda>submitted_on.
     need row ''referal_site'' (\<lambda>referal_site.
     need row ''reg_utm_url'' (\<lambda>reg_utm_url.
       Inr [ref, course_id, title, name, email,
            (if truthy phone then PStr (py_str phone) else PStr []),
            PStr (py_str submitted_on), PStr ''Error'', referal_site, reg_utm_url,
            PStr [], referal_site, PStr [], PStr [], PStr [], PStr [], PStr [], PStr [],
            PStr [], PStr ''Error''])))))))))"

definition transform_row ::
  "config \<Rightarrow> url_parser \<Rightarrow> pyval list \<Rightarrow> string \<Rightarrow> dbrow \<Rightarrow> pyexc + row" where
  "transform_row cfg parse_url campaign_landing_pages status_type row =
     (case prepare_row row of
        Inl e \<Rightarrow> Inl e
      | Inr prepared \<Rightarrow>
          (case formatted_row cfg parse_url campaign_landing_pages status_type prepared of
             Inr data_row \<Rightarrow> Inr data_row
           | Inl e \<Rightarrow> fallback_row prepared))"

subsection \<open>The batch\<close>

text \<open>The loop over the rows: an exception that leaves a row leaves the loop.\<close>

fun process_rows :: "(dbrow \<Rightarrow> pyexc + row) \<Rightarrow> dbrow list \<Rightarrow> pyexc + row list" where
  "process_rows f [] = Inr []"
| "process_rows f (r # rs) =
     (case f r of
        Inl e \<Rightarrow> Inl e
      | Inr data_row \<Rightarrow>
          (case process_rows f rs of
             Inl e \<Rightarrow> Inl e
           | Inr data \<Rightarrow> Inr (data_row # data)))"

text \<open>
  What the cursor gives back for the query: the rows, or an exception. Only the database
  error of the connector is caught, with an empty result.
\<close>

datatype db_reply = Fetched "dbrow list" | Fails pyexc

definition process_query_results ::
  "config \<Rightarrow> url_parser \<Rightarrow> db_reply \<Rightarrow> string \<Rightarrow> string \<Rightarrow> pyexc + row list" where
  "process_query_results cfg parse_url reply campaign status_type =
     (case reply of
        Fails e \<Rightarrow> if e = DatabaseError then Inr [] else Inl e
      | Fetched rows \<Rightarrow>
          if rows = [] then Inr []
          else process_rows
                 (transform_row cfg parse_url
                    (case landing_pages cfg campaign of None \<Rightarrow> [] | Some lps \<Rightarrow> lps)
                    status_type)
                 rows)"

subsection \<open>A sample row and a sample of the URL parser\<close>

text \<open>
  The parser on the two URLs of the examples: the first has an opening bracket without
  its closing one in the host, for which \<^verbatim>\<open>urlparse\<close> raises \<^verbatim>\<open>ValueError\<close>.
\<close>

definition sample_parse_url :: url_parser where
  "sample_parse_url u =
     (if u = ''http://[abc'' then Inl ValueError
      else if u = ''https://example.org/lp/anand-utsav?utm_source=fb''
      then Inr (''/lp/anand-utsav'', [''utm_source'' \<mapsto> [''fb'']])
      else Inr ([], Map.empty))"

definition sample_row :: "string \<Rightarrow> dbrow" where
  "sample_row url =
     [''id'' \<mapsto> PInt 7, ''entity_id'' \<mapsto> PInt 882646, ''event_type_id'' \<mapsto> PInt 684,
      ''eid'' \<mapsto> PInt 882646, ''title'' \<mapsto> PStr ''Anand Utsav'',
      ''accounting_course_id_201'' \<mapsto> PStr ''AU-1'', ''name'' \<mapsto> PStr ''A B'',
      ''participant_email'' \<mapsto> PStr ''a@example.org'', ''participant_phone'' \<mapsto> PInt 9876543210,
      ''pincode'' \<mapsto> PNone, ''submitted_on'' \<mapsto> PStr ''2025-06-02 10:00:00'',
      ''referal_site'' \<mapsto> PStr ''fb.com'', ''reg_utm_url'' \<mapsto> PStr url,
      ''pg_res_msg'' \<mapsto> PNone, ''pg_res_code'' \<mapsto> PNone, ''ptid'' \<mapsto> PInt 1]"

subsection \<open>Predicates used to state the properties of the transformer\<close>

text \<open>
  The columns that are read outside the \<^verbatim>\<open>try\<close> of a row or again in its handler: the
  identifying fields, the two raw URL fields and the pin code.
\<close>

definition identifying_columns :: "string list" where
  "identifying_columns =
     [''id'', ''accounting_course_id_201'', ''title'', ''name'', ''participant_email'',
      ''participant_phone'', ''submitted_on'', ''pincode'', ''referal_site'', ''reg_utm_url'']"

definition has_columns :: "string list \<Rightarrow> dbrow \<Rightarrow> bool" where
  "has_columns ks row = list_all (\<lambda>k. row k \<noteq> None) ks"

text \<open>The row after the six assignments, from the six values read.\<close>

definition prepared ::
  "dbrow \<Rightarrow> pyval \<Rightarrow> pyval \<Rightarrow> pyval \<Rightarrow> pyval \<Rightarrow> pyval \<Rightarrow> pyval \<Rightarrow> dbrow" where
  "prepared row email phone name pincode referal_site reg_utm_url =
     row(''participant_email'' \<mapsto> or_empty email,
         ''participant_phone'' \<mapsto> (if truthy phone then PStr (py_str phone) else PStr []),
         ''name'' \<mapsto> or_empty name,
         ''pincode'' \<mapsto> or_empty pincode,
         ''referal_site'' \<mapsto> or_empty referal_site,
         ''reg_utm_url'' \<mapsto> or_empty reg_utm_url)"

section \<open>Properties of the classifier\<close>

lemma match_loop_strings:
  "match_loop (map PStr ids) page = Inr (list_ex (\<lambda>lp. sublist lp page) ids)"
  by (induction ids) auto

lemma sublist_same_length:
  assumes "sublist xs ys" and "length xs = length ys"
  shows "xs = ys"
proof -
  from assms(1) obtain ps ss where ys: "ys = ps @ xs @ ss"
    by (auto simp: sublist_def)
  with assms(2) have "ps = []" and "ss = []"
    by simp_all
  with ys show ?thesis
    by simp
qed

lemma differs_only_in_case_no_match:
  assumes "differs_only_in_case page lp"
  shows "\<not> sublist lp page"
proof
  assume sub: "sublist lp page"
  from assms have "length (map lower_char page) = length (map lower_char lp)"
    by (simp add: differs_only_in_case_def)
  then have "length lp = length page"
    by simp
  with sub have "lp = page"
    by (rule sublist_same_length)
  with assms show False
    by (simp add: differs_only_in_case_def)
qed

text \<open>
  C1. The classifier always returns one of the four texts \<open>Direct\<close>, \<open>Indirect\<close>,
  \<open>Other\<close>, \<open>Error\<close>. On a list of string identifiers it follows the four-branch rule:
  \<open>Direct\<close> when the two pages are equal and an identifier is a substring of the first
  page; else \<open>Indirect\<close> when an identifier is a substring of the first page and none of
  the last page; else \<open>Direct\<close> when an identifier is a substring of the last page; else
  \<open>Other\<close>. In particular equal pages without any identifier match give \<open>Other\<close>.
\<close>

theorem determine_reg_type_four_branch:
  "determine_reg_type first_page last_page lps \<in> {''Direct'', ''Indirect'', ''Other'', ''Error''}
   \<and> determine_reg_type first_page last_page (map PStr ids) =
     (let first_match = (\<exists>lp \<in> set ids. sublist lp (page_str first_page));
          last_match = (\<exists>lp \<in> set ids. sublist lp (page_str last_page))
      in if page_str first_page = page_str last_page \<and> first_match then ''Direct''
         else if first_match \<and> \<not> last_match then ''Indirect''
         else if last_match then ''Direct''
         else ''Other'')
   \<and> (page_str first_page = page_str last_page
        \<and> \<not> (\<exists>lp \<in> set ids. sublist lp (page_str first_page))
      \<longrightarrow> determine_reg_type first_page last_page (map PStr ids) = ''Other'')"
proof -
  have total: "determine_reg_type first_page last_page lps
          \<in> {''Direct'', ''Indirect'', ''Other'', ''Error''}"
    by (simp add: determine_reg_type_def Let_def split: sum.splits)
  have rule: "determine_reg_type first_page last_page (map PStr ids) =
     (let first_match = (\<exists>lp \<in> set ids. sublist lp (page_str first_page));
          last_match = (\<exists>lp \<in> set ids. sublist lp (page_str last_page))
      in if page_str first_page = page_str last_page \<and> first_match then ''Direct''
         else if first_match \<and> \<not> last_match then ''Indirect''
         else if last_match then ''Direct''
         else ''Other'')"
    by (simp add: determine_reg_type_def match_loop_strings Let_def list_ex_iff)
  have other: "page_str first_page = page_str last_page
        \<and> \<not> (\<exists>lp \<in> set ids. sublist lp (page_str first_page))
      \<longrightarrow> determine_reg_type first_page last_page (map PStr ids) = ''Other''"
    by (simp add: rule Let_def)
  from total rule other show ?thesis
    by blast
qed

theorem determine_reg_type_four_branch_witness:
  "determine_reg_type (PStr ''lp/x'') (PStr ''lp/x'') (map PStr [''lp/x'']) = ''Direct''
   \<and> determine_reg_type (PStr ''lp/x'') (PStr ''other'') (map PStr [''lp/x'']) = ''Indirect''
   \<and> determine_reg_type (PStr ''a'') (PStr ''lp/x'') (map PStr [''lp/x'']) = ''Direct''
   \<and> determine_reg_type (PStr ''a'') (PStr ''b'') (map PStr [''lp/x'']) = ''Other''
   \<and> page_str (PStr ''a'') = page_str (PStr ''a'')
   \<and> \<not> (\<exists>lp \<in> set [''lp/x'']. sublist lp (page_str (PStr ''a'')))
   \<and> determine_reg_type (PStr ''a'') (PStr ''a'') (map PStr [''lp/x'']) = ''Other''
   \<and> determine_reg_type (PStr ''a'') (PStr ''a'') [PInt 3] = ''Error''"
proof -
  have err: "determine_reg_type (PStr ''a'') (PStr ''a'') [PInt 3] = ''Error''"
    by (simp add: determine_reg_type_def)
  show ?thesis
    using determine_reg_type_four_branch [of "PStr ''lp/x''" "PStr ''lp/x''" "[]" "[''lp/x'']"]
      determine_reg_type_four_branch [of "PStr ''lp/x''" "PStr ''other''" "[]" "[''lp/x'']"]
      determine_reg_type_four_branch [of "PStr ''a''" "PStr ''lp/x''" "[]" "[''lp/x'']"]
      determine_reg_type_four_branch [of "PStr ''a''" "PStr ''b''" "[]" "[''lp/x'']"]
      determine_reg_type_four_branch [of "PStr ''a''" "PStr ''a''" "[]" "[''lp/x'']"]
      err
    by (simp add: sublist_code)
qed

text \<open>
  C10. Identifiers are matched case-sensitively. When the first page and the last page
  each differ from every configured identifier only in letter case, neither match flag
  is set and the classification is \<open>Other\<close>.
\<close>

theorem determine_reg_type_case_sensitive:
  assumes "\<forall>lp \<in> set ids. differs_only_in_case first_page lp"
    and "\<forall>lp \<in> set ids. differs_only_in_case last_page lp"
  shows "match_loop (map PStr ids) first_page = Inr False
         \<and> match_loop (map PStr ids) last_page = Inr False
         \<and> determine_reg_type (PStr first_page) (PStr last_page) (map PStr ids) = ''Other''"
proof -
  from assms(1) have first: "\<not> list_ex (\<lambda>lp. sublist lp first_page) ids"
    by (auto simp: list_ex_iff dest: differs_only_in_case_no_match)
  from assms(2) have last: "\<not> list_ex (\<lambda>lp. sublist lp last_page) ids"
    by (auto simp: list_ex_iff dest: differs_only_in_case_no_match)
  from first last show ?thesis
    by (simp add: determine_reg_type_def match_loop_strings)
qed

theorem determine_reg_type_case_sensitive_witness:
  "differs_only_in_case ''LP/X'' ''lp/x''
   \<and> differs_only_in_case ''Lp/x'' ''lp/x''
   \<and> match_loop (map PStr [''lp/x'']) ''LP/X'' = Inr False
   \<and> match_loop (map PStr [''lp/x'']) ''Lp/x'' = Inr False
   \<and> determine_reg_type (PStr ''LP/X'') (PStr ''Lp/x'') (map PStr [''lp/x'']) = ''Other''"
proof -
  have a: "differs_only_in_case ''LP/X'' ''lp/x''"
    by code_simp
  have b: "differs_only_in_case ''Lp/x'' ''lp/x''"
    by code_simp
  from a b determine_reg_type_case_sensitive [of "[''lp/x'']" "''LP/X''" "''Lp/x''"]
  show ?thesis
    by simp
qed

section \<open>Properties of the write pipeline\<close>

subsection \<open>What remote calls leave untouched\<close>

lemma only_remote_iff:
  "only_remote w w' \<longleftrightarrow>
     (csv_files w' = csv_files w \<and> counter_file w' = counter_file w
      \<and> unwritable w' = unwritable w \<and> clock w' = clock w \<and> calls w \<le> calls w'
      \<and> (\<exists>evs. trace w' = trace w @ evs \<and> list_all is_remote evs))"
  by (auto simp: only_remote_def prefix_def)

lemma only_remote_refl: "only_remote w w"
  by (simp add: only_remote_iff)

lemma only_remote_trans:
  assumes "only_remote w w1" and "only_remote w1 w2"
  shows "only_remote w w2"
proof -
  from assms(1) obtain evs1 where t1: "trace w1 = trace w @ evs1" and r1: "list_all is_remote evs1"
    by (auto simp: only_remote_iff)
  from assms(2) obtain evs2 where t2: "trace w2 = trace w1 @ evs2" and r2: "list_all is_remote evs2"
    by (auto simp: only_remote_iff)
  from t1 t2 have "trace w2 = trace w @ (evs1 @ evs2)"
    by simp
  moreover from r1 r2 have "list_all is_remote (evs1 @ evs2)"
    by simp
  ultimately have "\<exists>evs. trace w2 = trace w @ evs \<and> list_all is_remote evs"
    by blast
  with assms show ?thesis
    by (simp add: only_remote_iff)
qed

lemma remote_only_remote:
  assumes "remote svc ev w = (r, w1)" and "is_remote ev"
  shows "only_remote w w1"
  using assms by (auto simp: remote_def only_remote_iff)

lemma remote_reply:
  assumes "remote svc ev w = (r, w1)"
  shows "r = svc (calls w)" and "calls w1 = calls w + 1"
  using assms by (auto simp: remote_def)

lemma verify_write_success_only_remote:
  "only_remote w (snd (verify_write_success svc sheet_name data w))"
proof (cases "remote svc (Get sheet_name) w")
  case (Pair r w1)
  then have "only_remote w w1"
    by (rule remote_only_remote) simp
  with Pair show ?thesis
    by (simp add: verify_write_success_def only_remote_refl split: reply.splits sum.splits)
qed

lemma verify_write_success_calls:
  assumes "data \<noteq> []"
  shows "calls (snd (verify_write_success svc sheet_name data w)) = calls w + 1"
  using assms
  by (simp add: verify_write_success_def remote_def split: reply.splits sum.splits)

lemma write_attempts_only_remote:
  "only_remote w (snd (write_attempts svc sheet_name data retries attempt w))"
proof (induction svc sheet_name data retries attempt w rule: write_attempts.induct)
  case (1 svc sheet_name data retries attempt w)
  show ?case
  proof (cases "retries \<le> attempt")
    case True
    then show ?thesis
      by (simp add: write_attempts.simps only_remote_refl)
  next
    case False
    obtain r w1 where r: "remote svc (Append sheet_name data) w = (r, w1)"
      by (cases "remote svc (Append sheet_name data) w")
    then have w1: "only_remote w w1"
      by (rule remote_only_remote) simp
    show ?thesis
    proof (cases r)
      case (Raises e)
      from "1.IH"(2) [OF False r [symmetric] Raises]
      have "only_remote w1 (snd (write_attempts svc sheet_name data retries (attempt + 1) w1))"
        by simp
      with w1 have "only_remote w (snd (write_attempts svc sheet_name data retries (attempt + 1) w1))"
        by (rule only_remote_trans)
      with False r Raises show ?thesis
        by (simp add: write_attempts.simps [of svc sheet_name data retries attempt w])
    next
      case (Returns result)
      obtain ok w2 where v: "verify_write_success svc sheet_name data w1 = (ok, w2)"
        by (cases "verify_write_success svc sheet_name data w1")
      have "only_remote w1 (snd (verify_write_success svc sheet_name data w1))"
        by (rule verify_write_success_only_remote)
      with v have "only_remote w1 w2"
        by simp
      with w1 have w2: "only_remote w w2"
        by (rule only_remote_trans)
      show ?thesis
      proof (cases "\<not> ok \<and> attempt < retries - 1")
        case True
        then have "ok = False" and "attempt < retries - 1"
          by simp_all
        from "1.IH"(1) [OF \<open>\<not> retries \<le> attempt\<close> r [symmetric] Returns v [symmetric] this]
        have "only_remote w2 (snd (write_attempts svc sheet_name data retries (attempt + 1) w2))"
          by simp
        with w2 have "only_remote w (snd (write_attempts svc sheet_name data retries (attempt + 1) w2))"
          by (rule only_remote_trans)
        with False r Returns v True show ?thesis
          by (simp add: write_attempts.simps [of svc sheet_name data retries attempt w])
      next
        case False
        with \<open>\<not> retries \<le> attempt\<close> r Returns v w2 show ?thesis
          by (cases ok) (auto simp: write_attempts.simps [of svc sheet_name data retries attempt w])
      qed
    qed
  qed
qed

lemma write_to_google_sheets_robust_only_remote:
  "only_remote w (snd (write_to_google_sheets_robust svc sheet_name data retries w))"
  by (simp add: write_to_google_sheets_robust_def only_remote_refl write_attempts_only_remote)

subsection \<open>A failed presence check\<close>

lemma check_written_sticky: "check_written rows current_ids True \<noteq> Inr False"
  by (induction rows) (auto split: sum.splits)

lemma check_written_missing:
  assumes "list_ex (\<lambda>r. r \<noteq> [] \<and> (case int_of_float (hd r) of
                                     Inl e \<Rightarrow> False
                                   | Inr record_id \<Rightarrow> record_id \<notin> current_ids)) rows"
  shows "check_written rows current_ids failed \<noteq> Inr False"
  using assms
  by (induction rows arbitrary: failed) (auto split: sum.splits simp: check_written_sticky)

lemma verify_write_success_missing:
  assumes "data \<noteq> []" and "svc (calls w) = Returns values" and "id_missing data values"
  shows "fst (verify_write_success svc sheet_name data w) = False"
proof -
  from assms(3) obtain current_ids where ids: "reread_ids values = Inr current_ids"
    and ex: "list_ex (\<lambda>r. r \<noteq> [] \<and> (case int_of_float (hd r) of
                                      Inl e \<Rightarrow> False
                                    | Inr record_id \<Rightarrow> record_id \<notin> current_ids)) data"
    by (auto simp: id_missing_def split: sum.splits)
  from ex have "check_written data current_ids False \<noteq> Inr False"
    by (rule check_written_missing)
  with assms(1,2) ids show ?thesis
    by (auto simp: verify_write_success_def remote_def split: sum.splits)
qed

lemma write_attempts_all_fail:
  assumes "data \<noteq> []"
    and "\<forall>i. attempt \<le> i \<and> i < retries \<longrightarrow> verification_fails_at svc (calls w + 2 * (i - attempt)) data"
  shows "fst (write_attempts svc sheet_name data retries attempt w) = False"
  using assms
proof (induction svc sheet_name data retries attempt w rule: write_attempts.induct)
  case (1 svc sheet_name data retries attempt w)
  note nonempty = "1.prems"(1) and fails = "1.prems"(2)
  show ?case
  proof (cases "retries \<le> attempt")
    case True
    then show ?thesis
      by (simp add: write_attempts.simps)
  next
    case False
    with fails have "verification_fails_at svc (calls w + 2 * (attempt - attempt)) data"
      by auto
    then obtain result vals where a: "svc (calls w) = Returns result"
      and b: "svc (calls w + 1) = Returns vals" and m: "id_missing data vals"
      by (auto simp: verification_fails_at_def split: reply.splits)
    obtain r w1 where r: "remote svc (Append sheet_name data) w = (r, w1)"
      by (cases "remote svc (Append sheet_name data) w")
    from remote_reply [OF r] a have r_eq: "r = Returns result" and c1: "calls w1 = calls w + 1"
      by simp_all
    obtain ok w2 where v: "verify_write_success svc sheet_name data w1 = (ok, w2)"
      by (cases "verify_write_success svc sheet_name data w1")
    from b c1 have "svc (calls w1) = Returns vals"
      by simp
    with nonempty m have "fst (verify_write_success svc sheet_name data w1) = False"
      by (intro verify_write_success_missing) auto
    with v have ok: "\<not> ok"
      by simp
    from verify_write_success_calls [OF nonempty, of svc sheet_name w1] v c1
    have c2: "calls w2 = calls w + 2"
      by simp
    show ?thesis
    proof (cases "attempt < retries - 1")
      case True
      have later: "\<forall>i. attempt + 1 \<le> i \<and> i < retries \<longrightarrow>
              verification_fails_at svc (calls w2 + 2 * (i - (attempt + 1))) data"
      proof (intro allI impI)
        fix i
        assume i: "attempt + 1 \<le> i \<and> i < retries"
        then have "calls w2 + 2 * (i - (attempt + 1)) = calls w + 2 * (i - attempt)"
          using c2 by auto
        moreover from i fails have "verification_fails_at svc (calls w + 2 * (i - attempt)) data"
          by auto
        ultimately show "verification_fails_at svc (calls w2 + 2 * (i - (attempt + 1))) data"
          by simp
      qed
      from ok have "ok = False"
        by simp
      with later have "fst (write_attempts svc sheet_name data retries (attempt + 1) w2) = False"
        using "1.IH"(1) [OF False r [symmetric] r_eq v [symmetric] _ True nonempty]
        by simp
      with False r r_eq v ok True show ?thesis
        by (simp add: write_attempts.simps [of svc sheet_name data retries attempt w])
    next
      case False
      with \<open>\<not> retries \<le> attempt\<close> r r_eq v ok show ?thesis
        by (simp add: write_attempts.simps [of svc sheet_name data retries attempt w])
    qed
  qed
qed

subsection \<open>When the verification passes\<close>

lemma check_written_passes_iff:
  "check_written rows current_ids failed = Inr False \<longleftrightarrow>
     \<not> failed
     \<and> list_all (\<lambda>r. r = [] \<or> (case int_of_float (hd r) of
                                   Inl e \<Rightarrow> e = ValueError \<or> e = IndexError
                                 | Inr record_id \<Rightarrow> record_id \<in> current_ids)) rows"
  by (induction rows arbitrary: failed) (auto split: sum.splits simp: check_written_sticky)

lemma check_written_raises:
  assumes "r \<in> set rows" and "r \<noteq> []" and "int_of_float (hd r) = Inl e"
    and "e \<noteq> ValueError" and "e \<noteq> IndexError"
  shows "\<exists>e'. check_written rows current_ids failed = Inl e'"
  using assms by (induction rows arbitrary: failed) (auto split: sum.splits)

lemma current_ids_loop_raises:
  assumes "r \<in> set rows" and "r \<noteq> []" and "truthy (hd r)"
    and "isdigit (remove_dots (py_str (hd r)))" and "int_of_float (hd r) = Inl e"
  shows "\<exists>e'. current_ids_loop rows current_ids = Inl e'"
  using assms by (induction rows arbitrary: current_ids) (auto split: sum.splits)

lemma reread_ids_raises:
  assumes "r \<in> set (tl values)" and "r \<noteq> []" and "truthy (hd r)"
    and "isdigit (remove_dots (py_str (hd r)))" and "int_of_float (hd r) = Inl e"
  shows "\<exists>e'. reread_ids values = Inl e'"
proof -
  from assms(1) have "1 < length values"
    by (cases "values") auto
  with current_ids_loop_raises [OF assms, of "{}"] show ?thesis
    by (simp add: reread_ids_def)
qed

lemma verify_write_success_passes_iff:
  assumes "data \<noteq> []"
  shows "fst (verify_write_success svc sheet_name data w) \<longleftrightarrow>
     (\<exists>values current_ids.
        svc (calls w) = Returns values \<and> reread_ids values = Inr current_ids
        \<and> list_all (\<lambda>r. r = [] \<or> (case int_of_float (hd r) of
                                      Inl e \<Rightarrow> e = ValueError \<or> e = IndexError
                                    | Inr record_id \<Rightarrow> record_id \<in> current_ids)) data)"
proof (cases "svc (calls w)")
  case (Raises e)
  with assms show ?thesis
    by (simp add: verify_write_success_def remote_def)
next
  case (Returns vals)
  show ?thesis
  proof (cases "reread_ids vals")
    case (Inl e)
    with assms Returns show ?thesis
      by (simp add: verify_write_success_def remote_def)
  next
    case (Inr current_ids)
    show ?thesis
    proof (cases "check_written data current_ids False")
      case (Inl e)
      with check_written_passes_iff [of data current_ids False] assms Returns Inr show ?thesis
        by (simp add: verify_write_success_def remote_def)
    next
      case chk: (Inr failed)
      with check_written_passes_iff [of data current_ids False] assms Returns Inr show ?thesis
        by (cases failed) (simp_all add: verify_write_success_def remote_def)
    qed
  qed
qed

lemma verify_write_success_reread_raises:
  assumes "data \<noteq> []" and "svc (calls w) = Raises e"
  shows "fst (verify_write_success svc sheet_name data w) = False"
  using assms by (simp add: verify_write_success_passes_iff)

lemma verify_write_success_reread_bad_cell:
  assumes "data \<noteq> []" and "svc (calls w) = Returns values"
    and "r \<in> set (tl values)" and "r \<noteq> []" and "truthy (hd r)"
    and "isdigit (remove_dots (py_str (hd r)))" and "int_of_float (hd r) = Inl e"
  shows "fst (verify_write_success svc sheet_name data w) = False"
proof -
  from reread_ids_raises [OF assms(3-7)] obtain e' where "reread_ids values = Inl e'"
    by blast
  with assms(1,2) show ?thesis
    by (simp add: verify_write_success_passes_iff)
qed

lemma verify_write_success_written_raises:
  assumes "r \<in> set data" and "r \<noteq> []" and "int_of_float (hd r) = Inl e"
    and "e \<noteq> ValueError" and "e \<noteq> IndexError"
  shows "fst (verify_write_success svc sheet_name data w) = False"
proof -
  from assms(1) have ne: "data \<noteq> []"
    by auto
  from assms have "\<not> list_all (\<lambda>r. r = [] \<or> (case int_of_float (hd r) of
                                      Inl e \<Rightarrow> e = ValueError \<or> e = IndexError
                                    | Inr record_id \<Rightarrow> record_id \<in> current_ids)) data"
    for current_ids
    by (auto simp: list_all_iff)
  with ne show ?thesis
    by (simp add: verify_write_success_passes_iff)
qed

lemma write_attempts_never_verified:
  assumes "\<And>w1. fst (verify_write_success svc sheet_name data w1) = False"
  shows "fst (write_attempts svc sheet_name data retries attempt w) = False"
proof (induction "retries - attempt" arbitrary: attempt w)
  case 0
  then show ?case
    by (simp add: write_attempts.simps)
next
  case (Suc n)
  then have later: "fst (write_attempts svc sheet_name data retries (attempt + 1) w') = False" for w'
    by simp
  obtain r w1 where r: "remote svc (Append sheet_name data) w = (r, w1)"
    by (cases "remote svc (Append sheet_name data) w")
  obtain ok w2 where v: "verify_write_success svc sheet_name data w1 = (ok, w2)"
    by (cases "verify_write_success svc sheet_name data w1")
  with assms [of w1] have ok: "ok = False"
    by simp
  from r v ok later [of w1] later [of w2] show ?case
    by (cases r) (simp_all add: write_attempts.simps [of svc sheet_name data retries attempt w])
qed

lemma write_robust_never_verified:
  assumes "data \<noteq> []"
    and "\<And>w1. fst (verify_write_success svc sheet_name data w1) = False"
  shows "fst (write_to_google_sheets_robust svc sheet_name data retries w) = False"
  using assms
  by (simp add: write_to_google_sheets_robust_def write_attempts_never_verified)

lemma verify_write_success_trace:
  assumes "data \<noteq> []"
  shows "trace (snd (verify_write_success svc sheet_name data w)) = trace w @ [Get sheet_name]"
  using assms
  by (simp add: verify_write_success_def remote_def split: reply.splits sum.splits)

lemma write_attempts_verified:
  assumes "data \<noteq> []"
    and "write_attempts svc sheet_name data retries attempt w = (True, w2)"
  shows "\<exists>k result values current_ids.
           calls w \<le> k \<and> calls w2 = k + 2
           \<and> svc k = Returns result \<and> svc (k + 1) = Returns values
           \<and> reread_ids values = Inr current_ids
           \<and> list_all (\<lambda>r. r = [] \<or> (case int_of_float (hd r) of
                                         Inl e \<Rightarrow> e = ValueError \<or> e = IndexError
                                       | Inr record_id \<Rightarrow> record_id \<in> current_ids)) data
           \<and> (\<exists>evs. trace w2 = evs @ [Append sheet_name data, Get sheet_name])"
  using assms(2)
proof (induction "retries - attempt" arbitrary: attempt w)
  case 0
  then show ?case
    by (simp add: write_attempts.simps)
next
  case (Suc n)
  let ?P = "\<lambda>w. \<exists>k result values current_ids.
           calls w \<le> k \<and> calls w2 = k + 2
           \<and> svc k = Returns result \<and> svc (k + 1) = Returns values
           \<and> reread_ids values = Inr current_ids
           \<and> list_all (\<lambda>r. r = [] \<or> (case int_of_float (hd r) of
                                         Inl e \<Rightarrow> e = ValueError \<or> e = IndexError
                                       | Inr record_id \<Rightarrow> record_id \<in> current_ids)) data
           \<and> (\<exists>evs. trace w2 = evs @ [Append sheet_name data, Get sheet_name])"
  from Suc.hyps(2) have n: "n = retries - (attempt + 1)"
    by simp
  note later = Suc.hyps(1) [OF n]
  from Suc.hyps(2) have lt: "\<not> retries \<le> attempt"
    by simp
  obtain r w1 where r: "remote svc (Append sheet_name data) w = (r, w1)"
    by (cases "remote svc (Append sheet_name data) w")
  from remote_reply [OF r] have r_eq: "r = svc (calls w)" and c1: "calls w1 = calls w + 1"
    by simp_all
  from r have t1: "trace w1 = trace w @ [Append sheet_name data]"
    by (auto simp: remote_def)
  show ?case
  proof (cases r)
    case (Raises e)
    with Suc.prems lt r have "write_attempts svc sheet_name data retries (attempt + 1) w1 = (True, w2)"
      by (simp add: write_attempts.simps [of svc sheet_name data retries attempt w])
    from later [OF this] c1 show ?thesis
      by (auto intro: le_trans)
  next
    case (Returns result)
    obtain ok w2' where v: "verify_write_success svc sheet_name data w1 = (ok, w2')"
      by (cases "verify_write_success svc sheet_name data w1")
    from verify_write_success_calls [OF assms(1), of svc sheet_name w1] v c1
    have c2: "calls w2' = calls w + 2"
      by simp
    show ?thesis
    proof (cases ok)
      case True
      with Suc.prems lt r Returns v have same: "w2' = w2"
        by (simp add: write_attempts.simps [of svc sheet_name data retries attempt w])
      from True v have "fst (verify_write_success svc sheet_name data w1)"
        by simp
      then obtain vals current_ids where "svc (calls w1) = Returns vals"
        "reread_ids vals = Inr current_ids"
        "list_all (\<lambda>r. r = [] \<or> (case int_of_float (hd r) of
                                         Inl e \<Rightarrow> e = ValueError \<or> e = IndexError
                                       | Inr record_id \<Rightarrow> record_id \<in> current_ids)) data"
        unfolding verify_write_success_passes_iff [OF assms(1)] by blast
      moreover from verify_write_success_trace [OF assms(1), of svc sheet_name w1] v t1 same
      have "trace w2 = trace w @ [Append sheet_name data, Get sheet_name]"
        by simp
      ultimately show ?thesis
        using c1 c2 same Returns r_eq
        by (intro exI [of _ "calls w"] exI [of _ result] exI [of _ vals]
            exI [of _ current_ids]) auto
    next
      case False
      with Suc.prems lt r Returns v
      have "write_attempts svc sheet_name data retries (attempt + 1) w2' = (True, w2)"
        by (simp add: write_attempts.simps [of svc sheet_name data retries attempt w]
            split: if_splits)
      from later [OF this] c2 show ?thesis
        by (auto intro: le_trans)
    qed
  qed
qed

subsection \<open>The ledger moves only after a verified write\<close>

lemma write_robust_all_fail:
  assumes "data \<noteq> []" and "\<forall>i<3. verification_fails_at svc (calls w + 2 * i) data"
  shows "fst (write_to_google_sheets_robust svc sheet_name data 3 w) = False"
proof -
  from assms(2)
  have "\<forall>i. 0 \<le> i \<and> i < 3 \<longrightarrow> verification_fails_at svc (calls w + 2 * (i - 0)) data"
    by simp
  with assms(1) have "fst (write_attempts svc sheet_name data 3 0 w) = False"
    by (rule write_attempts_all_fail)
  with assms(1) show ?thesis
    by (simp add: write_to_google_sheets_robust_def)
qed

lemma save_to_csv_frame:
  assumes "save_to_csv data filename w = Inr w1"
  shows "counter_file w1 = counter_file w" and "calls w1 = calls w"
    and "unwritable w1 = unwritable w" and "clock w1 = clock w"
  using assms by (auto simp: save_to_csv_def split: if_splits)

lemma get_plus_count_of:
  assumes "get_plus counters key n = Inr v"
  shows "v = PInt (count_of counters key + n)"
  using assms by (auto simp: get_plus_def count_of_def split: option.splits pyval.splits)

lemma count_key_distinct:
  "sheet_type @ ''_count'' \<noteq> ''total_processed''"
  "sheet_type @ ''_count'' \<noteq> ''last_updated''"
  "sheet_type @ ''_count'' \<noteq> ''campaign''"
  "sheet_type @ ''_count'' \<noteq> ''environment''"
proof -
  have s: "suffix ''_count'' (sheet_type @ ''_count'')"
    by (simp add: suffix_def)
  have "\<not> suffix ''_count'' ''total_processed''" "\<not> suffix ''_count'' ''last_updated''"
    "\<not> suffix ''_count'' ''campaign''" "\<not> suffix ''_count'' ''environment''"
    by (simp_all add: suffix_to_prefix)
  with s show "sheet_type @ ''_count'' \<noteq> ''total_processed''"
    "sheet_type @ ''_count'' \<noteq> ''last_updated''"
    "sheet_type @ ''_count'' \<noteq> ''campaign''"
    "sheet_type @ ''_count'' \<noteq> ''environment''"
    by metis+
qed

lemma update_counters_counts:
  assumes "update_counters_after_processing counters sheet_type n campaign environment now = Inr updated"
  shows "updated (sheet_type @ ''_count'') = Some (PInt (count_of counters (sheet_type @ ''_count'') + n))"
    and "updated ''total_processed'' = Some (PInt (count_of counters ''total_processed'' + n))"
    and "updated ''last_updated'' = Some (PStr now)"
  using assms
  by (auto simp: update_counters_after_processing_def count_key_distinct
      dest!: get_plus_count_of split: sum.splits)

lemma append_to_sheet_ledger_cases:
  assumes "data \<noteq> []"
  shows "counter_file (snd (append_to_sheet svc sheet_name data sheet_type campaign environment w))
           = counter_file w
         \<or> (\<exists>w1 w2 updated.
               save_to_csv data (backup_filename sheet_type) w = Inr w1
               \<and> write_to_google_sheets_robust svc sheet_name data 3 w1 = (True, w2)
               \<and> update_counters_after_processing (load_local_counters w) sheet_type
                    (int (length data)) campaign environment (clock w) = Inr updated
               \<and> counter_file (snd (append_to_sheet svc sheet_name data sheet_type campaign
                    environment w)) = Some updated)"
proof (cases "save_to_csv data (backup_filename sheet_type) w")
  case (Inl e)
  with assms show ?thesis
    by (simp add: append_to_sheet_def)
next
  case (Inr w1)
  note frame1 = save_to_csv_frame [OF Inr]
  obtain ok w2 where wr: "write_to_google_sheets_robust svc sheet_name data 3 w1 = (ok, w2)"
    by (cases "write_to_google_sheets_robust svc sheet_name data 3 w1")
  have "only_remote w1 (snd (write_to_google_sheets_robust svc sheet_name data 3 w1))"
    by (rule write_to_google_sheets_robust_only_remote)
  with wr have frame2: "counter_file w2 = counter_file w1" "clock w2 = clock w1"
    by (simp_all add: only_remote_iff)
  from frame1 frame2 have load: "load_local_counters w2 = load_local_counters w"
    by (simp add: load_local_counters_def)
  show ?thesis
  proof (cases ok)
    case False
    with assms Inr wr frame1 frame2 show ?thesis
      by (simp add: append_to_sheet_def)
  next
    case True
    show ?thesis
    proof (cases "update_counters_after_processing (load_local_counters w) sheet_type
                    (int (length data)) campaign environment (clock w)")
      case (Inl e)
      with assms Inr wr True frame1 frame2 load show ?thesis
        by (simp add: append_to_sheet_def)
    next
      case upd: (Inr updated)
      with assms Inr wr True frame1 frame2 load show ?thesis
        by (auto simp: append_to_sheet_def save_local_counters_def)
    qed
  qed
qed

lemma write_robust_verified:
  assumes "data \<noteq> []"
    and "write_to_google_sheets_robust svc sheet_name data retries w = (True, w2)"
  shows "\<exists>k result vals current_ids.
           calls w \<le> k \<and> calls w2 = k + 2
           \<and> svc k = Returns result \<and> svc (k + 1) = Returns vals
           \<and> reread_ids vals = Inr current_ids
           \<and> list_all (\<lambda>r. r = [] \<or> (case int_of_float (hd r) of
                                         Inl e \<Rightarrow> e = ValueError \<or> e = IndexError
                                       | Inr record_id \<Rightarrow> record_id \<in> current_ids)) data
           \<and> (\<exists>evs. trace w2 = evs @ [Append sheet_name data, Get sheet_name])"
proof -
  from assms have "write_attempts svc sheet_name data retries 0 w = (True, w2)"
    by (simp add: write_to_google_sheets_robust_def)
  with assms(1) show ?thesis
    by (rule write_attempts_verified)
qed

lemma update_counters_stored:
  assumes "update_counters_after_processing counters sheet_type n campaign environment now = Inr updated"
    and "key = sheet_type @ ''_count'' \<or> key = ''total_processed''"
  shows "counters key = Some (PInt c) \<Longrightarrow> updated key = Some (PInt (c + n))"
    and "counters key = None \<Longrightarrow> updated key = Some (PInt n)"
  using update_counters_counts(1,2) [OF assms(1)] assms(2)
  by (auto simp: count_of_def)

lemma zero_counters_cases:
  "zero_counters key = None \<or> zero_counters key = Some (PInt 0)"
  by (simp add: zero_counters_def)

text \<open>
  C2. For a non-empty batch, when on each of the three attempts the append is accepted
  and the re-read misses the identifier of a written row, the write pipeline returns
  failure, \<open>append_to_sheet\<close> returns 0 and the counter file is what it was (counts and
  time stamp). For every service and state: when \<open>append_to_sheet\<close> changes the counter
  file, the backup was written and the write pipeline returned success, which it does
  only after an append that the service accepted and a re-read that followed it,
  converted, and held the identifier of every written row that has one; these two calls
  are the last of the write. The new ledger then holds, under the key of the kind and
  under \<^verbatim>\<open>total_processed\<close>, the count that the counter file held plus the batch size
  (the batch size when the file or the key was missing), and the clock reading as its
  time stamp.
\<close>

theorem append_to_sheet_ledger_after_verified_write:
  assumes "data \<noteq> []"
    and "\<forall>i<3. verification_fails_at svc (calls w + 2 * i) data"
  shows "fst (write_to_google_sheets_robust svc sheet_name data 3 w) = False
       \<and> fst (append_to_sheet svc sheet_name data sheet_type campaign environment w) = 0
       \<and> counter_file (snd (append_to_sheet svc sheet_name data sheet_type campaign environment w))
           = counter_file w
       \<and> (\<forall>svc' w'.
            counter_file (snd (append_to_sheet svc' sheet_name data sheet_type campaign environment w'))
              \<noteq> counter_file w' \<longrightarrow>
            (\<exists>w1 w2 updated.
               save_to_csv data (backup_filename sheet_type) w' = Inr w1
               \<and> write_to_google_sheets_robust svc' sheet_name data 3 w1 = (True, w2)
               \<and> counter_file (snd (append_to_sheet svc' sheet_name data sheet_type campaign
                    environment w')) = Some updated
               \<and> updated (sheet_type @ ''_count'')
                   = Some (PInt (count_of (load_local_counters w') (sheet_type @ ''_count'')
                                 + int (length data)))
               \<and> updated ''total_processed''
                   = Some (PInt (count_of (load_local_counters w') ''total_processed''
                                 + int (length data)))
               \<and> (\<exists>k result reread current_ids.
                     calls w' \<le> k \<and> calls w2 = k + 2
                     \<and> svc' k = Returns result \<and> svc' (k + 1) = Returns reread
                     \<and> reread_ids reread = Inr current_ids
                     \<and> (\<forall>r \<in> set data. \<forall>record_id.
                           r \<noteq> [] \<and> int_of_float (hd r) = Inr record_id \<longrightarrow>
                           record_id \<in> current_ids)
                     \<and> (\<exists>evs. trace w2 = evs @ [Append sheet_name data, Get sheet_name]))
               \<and> (\<forall>stored key c.
                     counter_file w' = Some stored
                     \<and> (key = sheet_type @ ''_count'' \<or> key = ''total_processed'')
                     \<and> stored key = Some (PInt c) \<longrightarrow>
                     updated key = Some (PInt (c + int (length data))))
               \<and> (\<forall>key.
                     (key = sheet_type @ ''_count'' \<or> key = ''total_processed'')
                     \<and> (counter_file w' = None
                        \<or> (\<exists>stored. counter_file w' = Some stored \<and> stored key = None)) \<longrightarrow>
                     updated key = Some (PInt (int (length data))))
               \<and> updated ''last_updated'' = Some (PStr (clock w'))))"
proof -
  have a: "fst (write_to_google_sheets_robust svc sheet_name data 3 w) = False"
    using assms by (rule write_robust_all_fail)
  have bc: "fst (append_to_sheet svc sheet_name data sheet_type campaign environment w) = 0
       \<and> counter_file (snd (append_to_sheet svc sheet_name data sheet_type campaign environment w))
           = counter_file w"
  proof (cases "save_to_csv data (backup_filename sheet_type) w")
    case (Inl e)
    with assms(1) show ?thesis
      by (simp add: append_to_sheet_def)
  next
    case (Inr w1)
    note frame1 = save_to_csv_frame [OF Inr]
    from assms(2) frame1 have "\<forall>i<3. verification_fails_at svc (calls w1 + 2 * i) data"
      by simp
    with assms(1) have f: "fst (write_to_google_sheets_robust svc sheet_name data 3 w1) = False"
      by (rule write_robust_all_fail)
    obtain ok w2 where wr: "write_to_google_sheets_robust svc sheet_name data 3 w1 = (ok, w2)"
      by (cases "write_to_google_sheets_robust svc sheet_name data 3 w1")
    have "only_remote w1 (snd (write_to_google_sheets_robust svc sheet_name data 3 w1))"
      by (rule write_to_google_sheets_robust_only_remote)
    with wr have "counter_file w2 = counter_file w1"
      by (simp add: only_remote_iff)
    with assms(1) Inr wr f frame1 show ?thesis
      by (simp add: append_to_sheet_def)
  qed
  have d: "\<exists>w1 w2 updated.
               save_to_csv data (backup_filename sheet_type) w' = Inr w1
               \<and> write_to_google_sheets_robust svc' sheet_name data 3 w1 = (True, w2)
               \<and> counter_file (snd (append_to_sheet svc' sheet_name data sheet_type campaign
                    environment w')) = Some updated
               \<and> updated (sheet_type @ ''_count'')
                   = Some (PInt (count_of (load_local_counters w') (sheet_type @ ''_count'')
                                 + int (length data)))
               \<and> updated ''total_processed''
                   = Some (PInt (count_of (load_local_counters w') ''total_processed''
                                 + int (length data)))
               \<and> (\<exists>k result reread current_ids.
                     calls w' \<le> k \<and> calls w2 = k + 2
                     \<and> svc' k = Returns result \<and> svc' (k + 1) = Returns reread
                     \<and> reread_ids reread = Inr current_ids
                     \<and> (\<forall>r \<in> set data. \<forall>record_id.
                           r \<noteq> [] \<and> int_of_float (hd r) = Inr record_id \<longrightarrow>
                           record_id \<in> current_ids)
                     \<and> (\<exists>evs. trace w2 = evs @ [Append sheet_name data, Get sheet_name]))
               \<and> (\<forall>stored key c.
                     counter_file w' = Some stored
                     \<and> (key = sheet_type @ ''_count'' \<or> key = ''total_processed'')
                     \<and> stored key = Some (PInt c) \<longrightarrow>
                     updated key = Some (PInt (c + int (length data))))
               \<and> (\<forall>key.
                     (key = sheet_type @ ''_count'' \<or> key = ''total_processed'')
                     \<and> (counter_file w' = None
                        \<or> (\<exists>stored. counter_file w' = Some stored \<and> stored key = None)) \<longrightarrow>
                     updated key = Some (PInt (int (length data))))
               \<and> updated ''last_updated'' = Some (PStr (clock w'))"
    if changed: "counter_file (snd (append_to_sheet svc' sheet_name data sheet_type campaign
        environment w')) \<noteq> counter_file w'" for svc' w'
  proof -
    from changed append_to_sheet_ledger_cases [OF assms(1), of svc' sheet_name sheet_type campaign
        environment w']
    obtain w1 w2 updated where
      save: "save_to_csv data (backup_filename sheet_type) w' = Inr w1"
      and wr: "write_to_google_sheets_robust svc' sheet_name data 3 w1 = (True, w2)"
      and upd: "update_counters_after_processing (load_local_counters w') sheet_type
         (int (length data)) campaign environment (clock w') = Inr updated"
      and file_eq: "counter_file (snd (append_to_sheet svc' sheet_name data sheet_type campaign
         environment w')) = Some updated"
      by blast
    note counts = update_counters_counts [OF upd]
    from write_robust_verified [OF assms(1) wr]
    obtain k result reread current_ids where k: "calls w1 \<le> k" "calls w2 = k + 2"
      "svc' k = Returns result" "svc' (k + 1) = Returns reread"
      "reread_ids reread = Inr current_ids"
      and present: "list_all (\<lambda>r. r = [] \<or> (case int_of_float (hd r) of
                                         Inl e \<Rightarrow> e = ValueError \<or> e = IndexError
                                       | Inr record_id \<Rightarrow> record_id \<in> current_ids)) data"
      and tr: "\<exists>evs. trace w2 = evs @ [Append sheet_name data, Get sheet_name]"
      by blast
    from present have held: "\<forall>r \<in> set data. \<forall>record_id.
        r \<noteq> [] \<and> int_of_float (hd r) = Inr record_id \<longrightarrow> record_id \<in> current_ids"
      by (auto simp: list_all_iff)
    from k(1) save_to_csv_frame(2) [OF save] have k1: "calls w' \<le> k"
      by simp
    have verified: "\<exists>k result reread current_ids.
                     calls w' \<le> k \<and> calls w2 = k + 2
                     \<and> svc' k = Returns result \<and> svc' (k + 1) = Returns reread
                     \<and> reread_ids reread = Inr current_ids
                     \<and> (\<forall>r \<in> set data. \<forall>record_id.
                           r \<noteq> [] \<and> int_of_float (hd r) = Inr record_id \<longrightarrow>
                           record_id \<in> current_ids)
                     \<and> (\<exists>evs. trace w2 = evs @ [Append sheet_name data, Get sheet_name])"
      using k1 k(2-5) held tr by blast
    have stored: "updated key = Some (PInt (c + int (length data)))"
      if "counter_file w' = Some stored"
        and "key = sheet_type @ ''_count'' \<or> key = ''total_processed''"
        and "stored key = Some (PInt c)" for stored key c
    proof -
      from that(1) have "load_local_counters w' = stored"
        by (simp add: load_local_counters_def)
      with update_counters_stored(1) [OF upd that(2)] that(3) show ?thesis
        by simp
    qed
    have absent: "updated key = Some (PInt (int (length data)))"
      if key: "key = sheet_type @ ''_count'' \<or> key = ''total_processed''"
        and none: "counter_file w' = None
                   \<or> (\<exists>stored. counter_file w' = Some stored \<and> stored key = None)" for key
    proof -
      from none have "load_local_counters w' key = None
          \<or> load_local_counters w' key = Some (PInt 0)"
        using zero_counters_cases [of key] by (auto simp: load_local_counters_def)
      with update_counters_stored [OF upd key] show ?thesis
        by auto
    qed
    from save wr file_eq counts verified stored absent show ?thesis
      by blast
  qed
  from a bc d show ?thesis
    by blast
qed

theorem append_to_sheet_ledger_after_verified_write_witness:
  "fst (write_to_google_sheets_robust (fixed_service []) ''Ctr Course Success''
          [[PInt 7, PStr ''x'']] 3 fresh_world) = False
   \<and> fst (append_to_sheet (fixed_service []) ''Ctr Course Success'' [[PInt 7, PStr ''x'']]
             ''course_success'' ''whd-mar2025'' ''live'' fresh_world) = 0
   \<and> counter_file (snd (append_to_sheet (fixed_service []) ''Ctr Course Success''
             [[PInt 7, PStr ''x'']] ''course_success'' ''whd-mar2025'' ''live'' fresh_world))
        = counter_file fresh_world
   \<and> fst (append_to_sheet (fixed_service [[PStr ''Ref''], [PStr ''7'']]) ''Ctr Course Success''
             [[PInt 7, PStr ''x'']] ''course_success'' ''whd-mar2025'' ''live'' fresh_world) = 2
   \<and> (\<exists>updated.
         counter_file (snd (append_to_sheet (fixed_service [[PStr ''Ref''], [PStr ''7'']])
             ''Ctr Course Success'' [[PInt 7, PStr ''x'']] ''course_success'' ''whd-mar2025''
             ''live'' fresh_world)) = Some updated
         \<and> updated ''course_success_count'' = Some (PInt 1)
         \<and> updated ''total_processed'' = Some (PInt 1))
   \<and> (\<exists>updated.
         counter_file (snd (append_to_sheet (fixed_service [[PStr ''Ref''], [PStr ''7'']])
             ''Ctr Course Success'' [[PInt 7, PStr ''x'']] ''course_success'' ''whd-mar2025''
             ''live''
             (fresh_world\<lparr>counter_file :=
                Some [''course_success_count'' \<mapsto> PInt 40, ''total_processed'' \<mapsto> PInt 100]\<rparr>)))
           = Some updated
         \<and> updated ''course_success_count'' = Some (PInt 41)
         \<and> updated ''total_processed'' = Some (PInt 101)
         \<and> updated ''last_updated'' = Some (PStr ''2025-06-01T10:00:00''))"
proof -
  let ?data = "[[PInt 7, PStr ''x'']]"
  let ?svc = "fixed_service [[PStr ''Ref''], [PStr ''7'']]"
  let ?stored = "[''course_success_count'' \<mapsto> PInt 40, ''total_processed'' \<mapsto> PInt 100]"
  let ?w = "fresh_world\<lparr>counter_file := Some ?stored\<rparr>"
  have ne: "?data \<noteq> []"
    by simp
  have "id_missing ?data []"
    by code_simp
  then have fails: "\<forall>i<3. verification_fails_at (fixed_service []) (calls fresh_world + 2 * i) ?data"
    by (simp add: verification_fails_at_def fixed_service_def)
  note inst = append_to_sheet_ledger_after_verified_write [OF ne fails,
      of "''Ctr Course Success''" "''course_success''" "''whd-mar2025''" "''live''"]
  have cells: "fst (append_to_sheet ?svc ''Ctr Course Success'' ?data ''course_success''
      ''whd-mar2025'' ''live'' fresh_world) = 2"
    by code_simp
  have changed: "counter_file (snd (append_to_sheet ?svc ''Ctr Course Success'' ?data
      ''course_success'' ''whd-mar2025'' ''live'' fresh_world)) \<noteq> None"
    by code_simp
  have stamped: "(case counter_file (snd (append_to_sheet ?svc ''Ctr Course Success'' ?data
      ''course_success'' ''whd-mar2025'' ''live'' ?w)) of
        None \<Rightarrow> False
      | Some updated \<Rightarrow> updated ''last_updated'' = Some (PStr ''2025-06-01T10:00:00''))"
    by code_simp
  have "?stored ''last_updated'' = None"
    by simp
  with stamped
  have changed': "counter_file (snd (append_to_sheet ?svc ''Ctr Course Success'' ?data
      ''course_success'' ''whd-mar2025'' ''live'' ?w)) \<noteq> Some ?stored"
    by (auto split: option.splits)
  have zero: "counter_file fresh_world = None" "clock ?w = ''2025-06-01T10:00:00''"
    "counter_file ?w = Some ?stored"
    by (simp_all add: fresh_world_def)
  have keys: "''course_success'' @ ''_count'' = ''course_success_count''"
    by simp
  note step = inst [THEN conjunct2, THEN conjunct2, THEN conjunct2, rule_format,
      of ?svc fresh_world]
  note step' = inst [THEN conjunct2, THEN conjunct2, THEN conjunct2, rule_format,
      of ?svc ?w]
  from changed zero(1)
  have "counter_file (snd (append_to_sheet ?svc ''Ctr Course Success'' ?data
      ''course_success'' ''whd-mar2025'' ''live'' fresh_world)) \<noteq> counter_file fresh_world"
    by simp
  from step [OF this] obtain updated where
    u: "counter_file (snd (append_to_sheet ?svc ''Ctr Course Success'' ?data
          ''course_success'' ''whd-mar2025'' ''live'' fresh_world)) = Some updated"
    and absent: "\<forall>key. (key = ''course_success'' @ ''_count'' \<or> key = ''total_processed'')
                     \<and> (counter_file fresh_world = None
                        \<or> (\<exists>stored. counter_file fresh_world = Some stored \<and> stored key = None)) \<longrightarrow>
                     updated key = Some (PInt (int (length ?data)))"
    by (elim exE conjE) (rule that, assumption+)
  from absent zero(1) have "updated ''course_success_count'' = Some (PInt 1)"
    "updated ''total_processed'' = Some (PInt 1)"
    by simp_all
  with u have first: "\<exists>updated.
         counter_file (snd (append_to_sheet ?svc ''Ctr Course Success'' ?data ''course_success''
             ''whd-mar2025'' ''live'' fresh_world)) = Some updated
         \<and> updated ''course_success_count'' = Some (PInt 1)
         \<and> updated ''total_processed'' = Some (PInt 1)"
    by blast
  from changed' zero(3)
  have "counter_file (snd (append_to_sheet ?svc ''Ctr Course Success'' ?data
      ''course_success'' ''whd-mar2025'' ''live'' ?w)) \<noteq> counter_file ?w"
    by simp
  from step' [OF this] obtain updated' where
    u': "counter_file (snd (append_to_sheet ?svc ''Ctr Course Success'' ?data
          ''course_success'' ''whd-mar2025'' ''live'' ?w)) = Some updated'"
    and stored: "\<forall>stored key c.
                     counter_file ?w = Some stored
                     \<and> (key = ''course_success'' @ ''_count'' \<or> key = ''total_processed'')
                     \<and> stored key = Some (PInt c) \<longrightarrow>
                     updated' key = Some (PInt (c + int (length ?data)))"
    and stamp: "updated' ''last_updated'' = Some (PStr (clock ?w))"
    by (elim exE conjE) (rule that, assumption+)
  from stored [rule_format, of ?stored "''course_success_count''" 40] zero(3)
  have c1: "updated' ''course_success_count'' = Some (PInt 41)"
    by simp
  from stored [rule_format, of ?stored "''total_processed''" 100] zero(3)
  have c2: "updated' ''total_processed'' = Some (PInt 101)"
    by simp
  from stamp zero(2) have c3: "updated' ''last_updated'' = Some (PStr ''2025-06-01T10:00:00'')"
    by simp
  from u' c1 c2 c3 have second: "\<exists>updated.
         counter_file (snd (append_to_sheet ?svc ''Ctr Course Success'' ?data ''course_success''
             ''whd-mar2025'' ''live'' ?w)) = Some updated
         \<and> updated ''course_success_count'' = Some (PInt 41)
         \<and> updated ''total_processed'' = Some (PInt 101)
         \<and> updated ''last_updated'' = Some (PStr ''2025-06-01T10:00:00'')"
    by auto
  note a = inst [THEN conjunct1]
  note b = inst [THEN conjunct2, THEN conjunct1]
  note c = inst [THEN conjunct2, THEN conjunct2, THEN conjunct1]
  from a b c cells first second show ?thesis
    by (intro conjI)
qed

subsection \<open>The local backup\<close>

lemma append_to_sheet_trace:
  assumes "data \<noteq> []" and "backup_filename sheet_type \<notin> unwritable w"
  shows "csv_files (snd (append_to_sheet svc sheet_name data sheet_type campaign environment w))
           (backup_filename sheet_type) = Some data"
    and "\<exists>evs. trace (snd (append_to_sheet svc sheet_name data sheet_type campaign environment w))
                 = trace w @ Backup (backup_filename sheet_type) data # evs
               \<and> list_all (\<lambda>ev. is_remote ev \<or> ev = SaveCounters) evs"
proof -
  let ?f = "backup_filename sheet_type"
  define w1 where "w1 = w\<lparr>csv_files := (csv_files w)(?f \<mapsto> data),
                          trace := trace w @ [Backup ?f data]\<rparr>"
  from assms have save: "save_to_csv data ?f w = Inr w1"
    by (simp add: save_to_csv_def w1_def)
  obtain ok w2 where wr: "write_to_google_sheets_robust svc sheet_name data 3 w1 = (ok, w2)"
    by (cases "write_to_google_sheets_robust svc sheet_name data 3 w1")
  have "only_remote w1 (snd (write_to_google_sheets_robust svc sheet_name data 3 w1))"
    by (rule write_to_google_sheets_robust_only_remote)
  with wr obtain evs where csv2: "csv_files w2 = csv_files w1"
    and tr2: "trace w2 = trace w1 @ evs" and rem: "list_all is_remote evs"
    by (auto simp: only_remote_iff)
  from rem have rem': "list_all (\<lambda>ev. is_remote ev \<or> ev = SaveCounters) evs"
    by (simp add: list_all_iff)
  from csv2 have file2: "csv_files w2 ?f = Some data"
    by (simp add: w1_def)
  from tr2 have trace2: "trace w2 = trace w @ Backup ?f data # evs"
    by (simp add: w1_def)
  let ?w' = "snd (append_to_sheet svc sheet_name data sheet_type campaign environment w)"
  have "?w' = w2 \<or> (\<exists>counters. ?w' = save_local_counters counters w2)"
    using assms(1) save wr
    by (auto simp: append_to_sheet_def Let_def split: sum.splits bool.splits)
  then have "csv_files ?w' ?f = Some data
    \<and> (\<exists>evs. trace ?w' = trace w @ Backup ?f data # evs
               \<and> list_all (\<lambda>ev. is_remote ev \<or> ev = SaveCounters) evs)"
  proof
    assume "?w' = w2"
    with file2 trace2 rem' show ?thesis
      by auto
  next
    assume "\<exists>counters. ?w' = save_local_counters counters w2"
    then obtain counters where w': "?w' = save_local_counters counters w2"
      by blast
    then have "csv_files ?w' = csv_files w2"
      and "trace ?w' = trace w2 \<or> trace ?w' = trace w2 @ [SaveCounters]"
      by (simp_all add: save_local_counters_def)
    with file2 trace2 rem' show ?thesis
      by auto
  qed
  then show "csv_files ?w' ?f = Some data"
    and "\<exists>evs. trace ?w' = trace w @ Backup ?f data # evs
               \<and> list_all (\<lambda>ev. is_remote ev \<or> ev = SaveCounters) evs"
    by simp_all
qed

text \<open>
  C7, as the code has it. For a non-empty batch given to \<open>append_to_sheet\<close>: when the
  backup file cannot be written, no remote call is made and nothing changes; otherwise
  the batch is written to the backup file first, every remote call of the write comes
  after it in the trace, and the backup file then holds exactly the batch, whatever it
  held before.
\<close>

theorem append_to_sheet_backup_before_write:
  assumes "data \<noteq> []"
  shows "(backup_filename sheet_type \<in> unwritable w \<longrightarrow>
            append_to_sheet svc sheet_name data sheet_type campaign environment w = (0, w))
       \<and> (backup_filename sheet_type \<notin> unwritable w \<longrightarrow>
            csv_files (snd (append_to_sheet svc sheet_name data sheet_type campaign environment w))
              (backup_filename sheet_type) = Some data
            \<and> (\<exists>evs. trace (snd (append_to_sheet svc sheet_name data sheet_type campaign
                               environment w))
                        = trace w @ Backup (backup_filename sheet_type) data # evs
                      \<and> list_all (\<lambda>ev. is_remote ev \<or> ev = SaveCounters) evs))"
proof (intro conjI impI)
  assume "backup_filename sheet_type \<in> unwritable w"
  with assms show "append_to_sheet svc sheet_name data sheet_type campaign environment w = (0, w)"
    by (simp add: append_to_sheet_def save_to_csv_def)
next
  assume "backup_filename sheet_type \<notin> unwritable w"
  with assms show "csv_files (snd (append_to_sheet svc sheet_name data sheet_type campaign
      environment w)) (backup_filename sheet_type) = Some data"
    by (rule append_to_sheet_trace(1))
next
  assume "backup_filename sheet_type \<notin> unwritable w"
  with assms show "\<exists>evs. trace (snd (append_to_sheet svc sheet_name data sheet_type campaign
                               environment w))
                        = trace w @ Backup (backup_filename sheet_type) data # evs
                      \<and> list_all (\<lambda>ev. is_remote ev \<or> ev = SaveCounters) evs"
    by (rule append_to_sheet_trace(2))
qed

theorem append_to_sheet_backup_before_write_witness:
  "backup_filename ''course_success'' = ''campaign_course_success_backup.csv''
   \<and> append_to_sheet (fixed_service []) ''Ctr Course Success'' [[PInt 7, PStr ''x'']]
        ''course_success'' ''whd-mar2025'' ''live''
        (fresh_world\<lparr>unwritable := {''campaign_course_success_backup.csv''}\<rparr>)
      = (0, fresh_world\<lparr>unwritable := {''campaign_course_success_backup.csv''}\<rparr>)
   \<and> csv_files (snd (append_to_sheet (fixed_service []) ''Ctr Course Success''
          [[PInt 7, PStr ''x'']] ''course_success'' ''whd-mar2025'' ''live'' fresh_world))
        ''campaign_course_success_backup.csv'' = Some [[PInt 7, PStr ''x'']]
   \<and> (\<exists>evs. trace (snd (append_to_sheet (fixed_service []) ''Ctr Course Success''
          [[PInt 7, PStr ''x'']] ''course_success'' ''whd-mar2025'' ''live'' fresh_world))
        = Backup ''campaign_course_success_backup.csv'' [[PInt 7, PStr ''x'']] # evs)"
proof -
  have ne: "[[PInt 7, PStr ''x'']] \<noteq> []"
    by simp
  have name: "backup_filename ''course_success'' = ''campaign_course_success_backup.csv''"
    by (simp add: backup_filename_def COURSE_SUCCESS_CSV_BACKUP_def sublist_code)
  have a: "backup_filename ''course_success''
      \<in> unwritable (fresh_world\<lparr>unwritable := {''campaign_course_success_backup.csv''}\<rparr>)"
    by (simp add: name)
  have b: "backup_filename ''course_success'' \<notin> unwritable fresh_world"
    by (simp add: fresh_world_def)
  have t: "trace fresh_world = []"
    by (simp add: fresh_world_def)
  from append_to_sheet_backup_before_write [OF ne, of "''course_success''"
      "fresh_world\<lparr>unwritable := {''campaign_course_success_backup.csv''}\<rparr>"
      "fixed_service []" "''Ctr Course Success''" "''whd-mar2025''" "''live''"] a
    append_to_sheet_backup_before_write [OF ne, of "''course_success''" fresh_world
      "fixed_service []" "''Ctr Course Success''" "''whd-mar2025''" "''live''"] b name t
  show ?thesis
    by auto
qed

text \<open>
  The claim as stated fails: a backup file that held a row holds only the new batch
  after \<open>append_to_sheet\<close>, so what it held was replaced, not appended to.
\<close>

theorem append_to_sheet_backup_replaced_counterexample:
  "\<not> extends
       (csv_files (fresh_world\<lparr>csv_files := [''campaign_course_success_backup.csv'' \<mapsto>
                                                 [[PInt 3, PStr ''prior'']]]\<rparr>)
          ''campaign_course_success_backup.csv'')
       (csv_files (snd (append_to_sheet (fixed_service [[PStr ''Ref''], [PStr ''7'']])
                          ''Ctr Course Success'' [[PInt 7, PStr ''x'']] ''course_success''
                          ''whd-mar2025'' ''live''
                          (fresh_world\<lparr>csv_files := [''campaign_course_success_backup.csv''
                                                       \<mapsto> [[PInt 3, PStr ''prior'']]]\<rparr>)))
          ''campaign_course_success_backup.csv'')"
  by code_simp

subsection \<open>Rows that the presence check skips\<close>

lemma check_written_skip:
  assumes "r \<noteq> []" and "int_of_float (hd r) = Inl ValueError"
  shows "check_written (r # rows) current_ids failed = check_written rows current_ids failed"
  using assms by simp

lemma check_written_all_skipped:
  assumes "\<forall>r \<in> set rows. r = [] \<or> int_of_float (hd r) = Inl ValueError"
  shows "check_written rows current_ids failed = Inr failed"
  using assms by (induction rows) auto

lemma write_verification_other_exception_fails:
  assumes "r \<in> set batch" and "r \<noteq> []" and "int_of_float (hd r) = Inl e"
    and "e \<noteq> ValueError" and "e \<noteq> IndexError"
  shows "fst (write_to_google_sheets_robust svc sheet_name batch 3 w) = False"
proof -
  from assms(1) have "batch \<noteq> []"
    by auto
  moreover have "fst (verify_write_success svc sheet_name batch w1) = False" for w1
    using assms by (rule verify_write_success_written_raises)
  ultimately show ?thesis
    by (rule write_robust_never_verified)
qed

lemma write_verification_bad_reread_fails:
  assumes "data \<noteq> []"
    and "\<forall>k. case svc k of
              Raises e \<Rightarrow> True
            | Returns reread \<Rightarrow>
                (\<exists>r \<in> set (tl reread). r \<noteq> [] \<and> truthy (hd r)
                   \<and> isdigit (remove_dots (py_str (hd r)))
                   \<and> (\<exists>e. int_of_float (hd r) = Inl e))"
  shows "fst (write_to_google_sheets_robust svc sheet_name data 3 w) = False"
proof -
  have "fst (verify_write_success svc sheet_name data w1) = False" for w1
  proof (cases "svc (calls w1)")
    case (Raises e)
    with assms(1) show ?thesis
      by (rule verify_write_success_reread_raises)
  next
    case (Returns reread)
    with assms(2) [rule_format, of "calls w1"]
    obtain r e where "r \<in> set (tl reread)" "r \<noteq> []" "truthy (hd r)"
      "isdigit (remove_dots (py_str (hd r)))" "int_of_float (hd r) = Inl e"
      by auto
    with assms(1) Returns show ?thesis
      by (intro verify_write_success_reread_bad_cell)
  qed
  with assms(1) show ?thesis
    by (rule write_robust_never_verified)
qed

text \<open>
  C9, as the code has it. In the presence check a written row whose first cell raises
  \<^verbatim>\<open>ValueError\<close> on conversion is skipped. A non-empty batch in which every row is empty
  or has such a first cell passes verification, and the write is reported as successful
  on the first attempt, when the append is accepted and the re-read returns a column
  whose identifier cells convert. A written row whose first cell raises another
  exception (\<^verbatim>\<open>TypeError\<close> for \<^verbatim>\<open>None\<close>, \<^verbatim>\<open>OverflowError\<close> for an infinite value)
  fails the verification, and with it the write. A re-read that raises fails the
  verification, and so does a re-read that holds, after its header, a cell which passes
  the digit test and does not convert; when every reply of the service is of one of
  these two kinds, the write is reported as failed.
\<close>

theorem write_verification_skips_value_errors:
  assumes "data \<noteq> []"
    and "\<forall>r \<in> set data. r = [] \<or> int_of_float (hd r) = Inl ValueError"
    and "svc (calls w) = Returns result"
    and "svc (calls w + 1) = Returns reread"
    and "reread_ids reread = Inr current_ids"
  shows "(\<forall>r rows ids failed. r \<noteq> [] \<and> int_of_float (hd r) = Inl ValueError \<longrightarrow>
            check_written (r # rows) ids failed = check_written rows ids failed)
       \<and> fst (verify_write_success svc sheet_name data (snd (remote svc (Append sheet_name data) w)))
           = True
       \<and> fst (write_to_google_sheets_robust svc sheet_name data 3 w) = True
       \<and> (\<forall>svc' w' batch r e.
            r \<in> set batch \<and> r \<noteq> [] \<and> int_of_float (hd r) = Inl e
            \<and> e \<noteq> ValueError \<and> e \<noteq> IndexError \<longrightarrow>
            fst (verify_write_success svc' sheet_name batch w') = False
            \<and> fst (write_to_google_sheets_robust svc' sheet_name batch 3 w') = False)
       \<and> int_of_float PNone = Inl TypeError
       \<and> (\<forall>s. parse_float s = Some Infinite \<longrightarrow> int_of_float (PStr s) = Inl OverflowError)
       \<and> (\<forall>svc' w' e.
            svc' (calls w') = Raises e \<longrightarrow>
            fst (verify_write_success svc' sheet_name data w') = False)
       \<and> (\<forall>svc' w' reread' r e.
            svc' (calls w') = Returns reread' \<and> r \<in> set (tl reread') \<and> r \<noteq> []
            \<and> truthy (hd r) \<and> isdigit (remove_dots (py_str (hd r)))
            \<and> int_of_float (hd r) = Inl e \<longrightarrow>
            fst (verify_write_success svc' sheet_name data w') = False)
       \<and> (\<forall>svc' w'.
            (\<forall>k. case svc' k of
                   Raises e \<Rightarrow> True
                 | Returns reread' \<Rightarrow>
                     (\<exists>r \<in> set (tl reread'). r \<noteq> [] \<and> truthy (hd r)
                        \<and> isdigit (remove_dots (py_str (hd r)))
                        \<and> (\<exists>e. int_of_float (hd r) = Inl e))) \<longrightarrow>
            fst (write_to_google_sheets_robust svc' sheet_name data 3 w') = False)"
proof -
  have skip: "\<forall>r rows ids failed. r \<noteq> [] \<and> int_of_float (hd r) = Inl ValueError \<longrightarrow>
            check_written (r # rows) ids failed = check_written rows ids failed"
    by simp
  obtain r w1 where r: "remote svc (Append sheet_name data) w = (r, w1)"
    by (cases "remote svc (Append sheet_name data) w")
  from remote_reply [OF r] assms(3) have r_eq: "r = Returns result" and c1: "calls w1 = calls w + 1"
    by simp_all
  from assms(2) have chk: "check_written data current_ids False = Inr False"
    by (rule check_written_all_skipped)
  from assms(4) c1 have "svc (calls w1) = Returns reread"
    by simp
  with assms(1,5) chk have v: "fst (verify_write_success svc sheet_name data w1) = True"
    by (simp add: verify_write_success_def remote_def)
  then obtain w2 where v2: "verify_write_success svc sheet_name data w1 = (True, w2)"
    by (cases "verify_write_success svc sheet_name data w1") simp
  from r r_eq v2 have "fst (write_attempts svc sheet_name data 3 0 w) = True"
    by (simp add: write_attempts.simps [of svc sheet_name data 3 0 w])
  with assms(1) have wr: "fst (write_to_google_sheets_robust svc sheet_name data 3 w) = True"
    by (simp add: write_to_google_sheets_robust_def)
  from v r have v': "fst (verify_write_success svc sheet_name data
      (snd (remote svc (Append sheet_name data) w))) = True"
    by simp
  have other: "\<forall>svc' w' batch r e.
            r \<in> set batch \<and> r \<noteq> [] \<and> int_of_float (hd r) = Inl e
            \<and> e \<noteq> ValueError \<and> e \<noteq> IndexError \<longrightarrow>
            fst (verify_write_success svc' sheet_name batch w') = False
            \<and> fst (write_to_google_sheets_robust svc' sheet_name batch 3 w') = False"
    using verify_write_success_written_raises write_verification_other_exception_fails
    by blast
  have none: "int_of_float PNone = Inl TypeError"
    by (simp add: int_of_float_def)
  have inf: "\<forall>s. parse_float s = Some Infinite \<longrightarrow> int_of_float (PStr s) = Inl OverflowError"
    by (simp add: int_of_float_def)
  have raises: "\<forall>svc' w' e.
            svc' (calls w') = Raises e \<longrightarrow>
            fst (verify_write_success svc' sheet_name data w') = False"
    using verify_write_success_reread_raises [OF assms(1)] by blast
  have bad: "\<forall>svc' w' reread' r e.
            svc' (calls w') = Returns reread' \<and> r \<in> set (tl reread') \<and> r \<noteq> []
            \<and> truthy (hd r) \<and> isdigit (remove_dots (py_str (hd r)))
            \<and> int_of_float (hd r) = Inl e \<longrightarrow>
            fst (verify_write_success svc' sheet_name data w') = False"
    using verify_write_success_reread_bad_cell [OF assms(1)] by blast
  have every: "\<forall>svc' w'.
            (\<forall>k. case svc' k of
                   Raises e \<Rightarrow> True
                 | Returns reread' \<Rightarrow>
                     (\<exists>r \<in> set (tl reread'). r \<noteq> [] \<and> truthy (hd r)
                        \<and> isdigit (remove_dots (py_str (hd r)))
                        \<and> (\<exists>e. int_of_float (hd r) = Inl e))) \<longrightarrow>
            fst (write_to_google_sheets_robust svc' sheet_name data 3 w') = False"
    using write_verification_bad_reread_fails [OF assms(1)] by blast
  from skip v' wr other none inf raises bad every show ?thesis
    by (intro conjI)
qed

theorem write_verification_skips_value_errors_witness:
  "int_of_float (PStr ''abc'') = Inl ValueError
   \<and> reread_ids [[PStr ''Ref''], [PStr ''5'']] = Inr {5}
   \<and> check_written [[PStr ''abc''], [PStr ''9'']] {5} False
       = check_written [[PStr ''9'']] {5} False
   \<and> fst (write_to_google_sheets_robust (fixed_service [[PStr ''Ref''], [PStr ''5'']])
            ''Funnel 1 All Success'' [[PStr ''abc'']] 3 fresh_world) = True
   \<and> fst (write_to_google_sheets_robust (fixed_service [[PStr ''Ref''], [PStr ''5'']])
            ''Funnel 1 All Success'' [[PNone, PStr ''x'']] 3 fresh_world) = False
   \<and> fst (verify_write_success (\<lambda>k. Raises HttpError) ''Funnel 1 All Success''
            [[PStr ''abc'']] fresh_world) = False
   \<and> fst (write_to_google_sheets_robust (fixed_service [[PStr ''Ref''], [PStr ''1.2.3'']])
            ''Funnel 1 All Success'' [[PStr ''abc'']] 3 fresh_world) = False"
proof -
  have conv: "int_of_float (PStr ''abc'') = Inl ValueError"
    by code_simp
  have ids: "reread_ids [[PStr ''Ref''], [PStr ''5'']] = Inr {5}"
    by code_simp
  have ne: "[[PStr ''abc'']] \<noteq> []"
    by simp
  from conv have rows: "\<forall>r \<in> set [[PStr ''abc'']]. r = [] \<or> int_of_float (hd r) = Inl ValueError"
    by simp
  have a: "fixed_service [[PStr ''Ref''], [PStr ''5'']] (calls fresh_world)
      = Returns [[PStr ''Ref''], [PStr ''5'']]"
    and b: "fixed_service [[PStr ''Ref''], [PStr ''5'']] (calls fresh_world + 1)
      = Returns [[PStr ''Ref''], [PStr ''5'']]"
    by (simp_all add: fixed_service_def)
  note inst = write_verification_skips_value_errors [OF ne rows a b ids,
      of "''Funnel 1 All Success''"]
  note skip = inst [THEN conjunct1, rule_format]
  note passes = inst [THEN conjunct2, THEN conjunct2, THEN conjunct1]
  note other = inst [THEN conjunct2, THEN conjunct2, THEN conjunct2, THEN conjunct1, rule_format]
  note none = inst [THEN conjunct2, THEN conjunct2, THEN conjunct2, THEN conjunct2,
      THEN conjunct1]
  note raises = inst [THEN conjunct2, THEN conjunct2, THEN conjunct2, THEN conjunct2,
      THEN conjunct2, THEN conjunct2, THEN conjunct1, rule_format]
  note every = inst [THEN conjunct2, THEN conjunct2, THEN conjunct2, THEN conjunct2,
      THEN conjunct2, THEN conjunct2, THEN conjunct2, THEN conjunct2, rule_format]
  from conv have c: "check_written [[PStr ''abc''], [PStr ''9'']] {5} False
       = check_written [[PStr ''9'']] {5} False"
    by (intro skip) simp
  have d: "fst (write_to_google_sheets_robust (fixed_service [[PStr ''Ref''], [PStr ''5'']])
            ''Funnel 1 All Success'' [[PNone, PStr ''x'']] 3 fresh_world) = False"
    using none
    by (intro other [of "[PNone, PStr ''x'']" "[[PNone, PStr ''x'']]" TypeError, THEN conjunct2])
      simp
  have e: "fst (verify_write_success (\<lambda>k. Raises HttpError) ''Funnel 1 All Success''
            [[PStr ''abc'']] fresh_world) = False"
    by (rule raises [of _ _ HttpError]) simp
  have digits: "isdigit (remove_dots (py_str (PStr ''1.2.3'')))"
    by code_simp
  have noconv: "int_of_float (PStr ''1.2.3'') = Inl ValueError"
    by code_simp
  have f: "fst (write_to_google_sheets_robust (fixed_service [[PStr ''Ref''], [PStr ''1.2.3'']])
            ''Funnel 1 All Success'' [[PStr ''abc'']] 3 fresh_world) = False"
    using digits noconv by (intro every) (simp add: fixed_service_def)
  from conv ids c passes d e f show ?thesis
    by (intro conjI)
qed

text \<open>
  The claim as stated fails: no row of the batch has a numeric first cell, the append is
  accepted, and the re-read holds the cell \<open>1.2.3\<close>, which passes the digit test and
  does not convert. The conversion raises outside any inner handler, every attempt fails
  its verification, and the write is reported as failed.
\<close>

theorem write_verification_reread_counterexample:
  "int_of_float (PStr ''abc'') = Inl ValueError
   \<and> fst (write_to_google_sheets_robust (fixed_service [[PStr ''Ref''], [PStr ''1.2.3'']])
            ''Funnel 1 All Success'' [[PStr ''abc'']] 3 fresh_world) = False"
  by code_simp

section \<open>Properties of the key resolver\<close>

lemma int_of_float_errors:
  assumes "int_of_float v = Inl e"
  shows "e = ValueError \<or> e = TypeError \<or> e = OverflowError"
  using assms
  by (auto simp: int_of_float_def split: pyval.splits option.splits literal.splits)

lemma scan_ids_step:
  assumes "\<not> overflows r"
  shows "scan_ids (r # rows) ids
           = scan_ids rows (case row_id r of None \<Rightarrow> ids | Some i \<Rightarrow> insert i ids)"
proof (cases "r \<noteq> [] \<and> truthy (hd r) \<and> looks_numeric (hd r)")
  case False
  then show ?thesis
    by (auto simp: row_id_def)
next
  case True
  show ?thesis
  proof (cases "int_of_float (hd r)")
    case (Inr i)
    with True show ?thesis
      by (simp add: row_id_def)
  next
    case (Inl e)
    with True assms have "e \<noteq> OverflowError"
      by (auto simp: overflows_def)
    with int_of_float_errors [OF Inl] have "e = ValueError \<or> e = TypeError"
      by simp
    with True Inl show ?thesis
      by (auto simp: row_id_def)
  qed
qed

lemma scan_ids_complete:
  assumes "\<forall>r \<in> set rows. \<not> overflows r"
  shows "scan_ids rows ids = (ids \<union> {i. \<exists>r \<in> set rows. row_id r = Some i}, None)"
  using assms
proof (induction rows arbitrary: ids)
  case Nil
  then show ?case
    by simp
next
  case (Cons r rows)
  then have r: "\<not> overflows r" and rest: "\<forall>r \<in> set rows. \<not> overflows r"
    by simp_all
  show ?case
  proof (cases "row_id r")
    case None
    with Cons.IH [OF rest, of ids] scan_ids_step [OF r, of rows ids] show ?thesis
      by auto
  next
    case (Some i)
    with Cons.IH [OF rest, of "insert i ids"] scan_ids_step [OF r, of rows ids] show ?thesis
      by auto
  qed
qed

lemma scan_ids_overflow:
  assumes "overflows r"
  shows "scan_ids (r # rows) ids = (ids, Some OverflowError)"
  using assms by (simp add: overflows_def)

lemma scan_ids_prefix:
  assumes "\<forall>r \<in> set before. \<not> overflows r" and "overflows r"
  shows "scan_ids (before @ r # rows) ids
           = (ids \<union> {i. \<exists>r \<in> set before. row_id r = Some i}, Some OverflowError)"
  using assms
proof (induction before arbitrary: ids)
  case Nil
  then show ?case
    by (simp add: scan_ids_overflow del: scan_ids.simps)
next
  case (Cons b before)
  then have b: "\<not> overflows b" and rest: "\<forall>r \<in> set before. \<not> overflows r"
    by simp_all
  show ?case
  proof (cases "row_id b")
    case None
    with Cons.IH [OF rest Cons.prems(2), of ids] scan_ids_step [OF b, of "before @ r # rows" ids]
    show ?thesis
      by auto
  next
    case (Some i)
    with Cons.IH [OF rest Cons.prems(2), of "insert i ids"]
      scan_ids_step [OF b, of "before @ r # rows" ids]
    show ?thesis
      by auto
  qed
qed

text \<open>
  What the resolver does when the first read succeeds and no cell overflows: the first
  row is dropped as the header, and the result is the set of the identifiers of the
  other rows, a row counting when its first cell is non-empty, passes the digit test
  and converts.
\<close>

lemma get_existing_sheet_ids_first_read:
  assumes "0 < retries" and "svc (calls w) = Returns table"
    and "\<forall>r \<in> set (pop_header table). \<not> overflows r"
  shows "fst (get_existing_sheet_ids svc sheet_name retries w)
           = {i. \<exists>r \<in> set (pop_header table). row_id r = Some i}"
  using assms
  by (simp add: get_existing_sheet_ids_def remote_def scan_ids_complete
      get_ids_attempts.simps [of svc sheet_name retries 0 "{}" w])

lemma get_existing_sheet_ids_header_only:
  assumes "0 < retries" and "svc (calls w) = Returns table" and "length table \<le> 1"
  shows "fst (get_existing_sheet_ids svc sheet_name retries w) = {}"
proof -
  from assms(3) have "pop_header table = []"
    by (cases table) (simp_all add: pop_header_def)
  with assms(1,2) show ?thesis
    by (simp add: get_existing_sheet_ids_def remote_def
        get_ids_attempts.simps [of svc sheet_name retries 0 "{}" w])
qed

text \<open>
  C6 fails on a cell beyond the range of a double. The table has a header, a cell of a
  one followed by 309 zeros, and the cell \<open>5\<close>. The large cell passes the digit test,
  \<^verbatim>\<open>float\<close> returns infinity and \<^verbatim>\<open>int\<close> raises \<^verbatim>\<open>OverflowError\<close>, which the inner
  handler does not list: each of the three attempts is abandoned at that row, and the
  identifier 5 of the row after it is not in the result.
\<close>

theorem get_existing_sheet_ids_overflow:
  "row_id [PStr ''5''] = Some 5
   \<and> overflows [PStr (CHR ''1'' # replicate 309 (CHR ''0''))]
   \<and> fst (get_existing_sheet_ids
           (fixed_service [[PStr ''Ref''], [PStr (CHR ''1'' # replicate 309 (CHR ''0''))],
                           [PStr ''5'']])
           ''Ctr Course Success'' 3 fresh_world) = {}"
proof -
  have five: "row_id [PStr ''5''] = Some 5"
    by code_simp
  have big: "overflows [PStr (CHR ''1'' # replicate 309 (CHR ''0''))]"
    by code_simp
  then have scan: "scan_ids (pop_header [[PStr ''Ref''],
      [PStr (CHR ''1'' # replicate 309 (CHR ''0''))], [PStr ''5'']]) ids
      = (ids, Some OverflowError)" for ids
    by (simp add: pop_header_def scan_ids_overflow del: scan_ids.simps)
  have "fst (get_existing_sheet_ids
           (fixed_service [[PStr ''Ref''], [PStr (CHR ''1'' # replicate 309 (CHR ''0''))],
                           [PStr ''5'']])
           ''Ctr Course Success'' 3 fresh_world) = {}"
    by (simp add: get_existing_sheet_ids_def get_ids_attempts.simps remote_def
        fixed_service_def scan del: scan_ids.simps)
  with five big show ?thesis
    by simp
qed
section \<open>Properties of the extraction queries\<close>

subsection \<open>Decimal numerals read back\<close>

lemma digit_char_cases:
  assumes "d < 10"
  shows "digit_val (digit_char d) = int d" and "digit_char d \<noteq> CHR '',''"
    and "digit_char d \<noteq> CHR ''-''" and "CHR '','' \<noteq> digit_char d"
    and "CHR ''-'' \<noteq> digit_char d"
proof -
  from assms have "d = 0 \<or> d = 1 \<or> d = 2 \<or> d = 3 \<or> d = 4 \<or> d = 5 \<or> d = 6 \<or> d = 7 \<or> d = 8 \<or> d = 9"
    by arith
  then show "digit_val (digit_char d) = int d" and "digit_char d \<noteq> CHR '',''"
    and "digit_char d \<noteq> CHR ''-''" and "CHR '','' \<noteq> digit_char d"
    and "CHR ''-'' \<noteq> digit_char d"
    by (auto simp: digit_val_def digit_char_def)
qed

lemma int_of_digits_snoc: "int_of_digits (ds @ [c]) = 10 * int_of_digits ds + digit_val c"
  by (simp add: int_of_digits_def)

lemma int_of_digits_str_of_nat:
  assumes "0 \<le> n"
  shows "int_of_digits (str_of_nat n) = n"
  using assms
proof (induction n rule: str_of_nat.induct)
  case (1 n)
  show ?case
  proof (cases "n < 10")
    case True
    with "1.prems" have "nat n < 10"
      by simp
    with True "1.prems" show ?thesis
      by (simp add: str_of_nat.simps [of n] int_of_digits_def digit_char_cases(1))
  next
    case False
    have "nat (n mod 10) < 10"
      by simp
    moreover from False have "0 \<le> n div 10"
      by simp
    moreover have "10 * (n div 10) + n mod 10 = n"
      by simp
    ultimately show ?thesis
      using False "1.IH"
      by (simp add: str_of_nat.simps [of n] int_of_digits_snoc digit_char_cases(1))
  qed
qed

lemma str_of_nat_chars:
  "str_of_nat n \<noteq> [] \<and> CHR '','' \<notin> set (str_of_nat n) \<and> CHR ''-'' \<notin> set (str_of_nat n)"
proof (induction n rule: str_of_nat.induct)
  case (1 n)
  show ?case
  proof (cases "n < 10")
    case True
    then have "nat n < 10"
      by simp
    with True show ?thesis
      by (simp add: str_of_nat.simps [of n] digit_char_cases)
  next
    case False
    have "nat (n mod 10) < 10"
      by simp
    with False "1.IH" show ?thesis
      by (simp add: str_of_nat.simps [of n] digit_char_cases)
  qed
qed

lemma read_int_str_of_int: "read_int (str_of_int i) = i"
proof (cases "i < 0")
  case True
  then show ?thesis
    by (simp add: read_int_def str_of_int_def int_of_digits_str_of_nat)
next
  case False
  obtain c t where s: "str_of_nat i = c # t"
    using str_of_nat_chars [of i] by (cases "str_of_nat i") auto
  with str_of_nat_chars [of i] have "c \<noteq> CHR ''-''"
    by auto
  with s have "read_int (str_of_nat i) = int_of_digits (str_of_nat i)"
    by (simp add: read_int_def)
  with False show ?thesis
    by (simp add: str_of_int_def int_of_digits_str_of_nat)
qed

lemma str_of_int_no_comma: "CHR '','' \<notin> set (str_of_int i)"
  using str_of_nat_chars by (simp add: str_of_int_def)

subsection \<open>Joining and splitting\<close>

lemma split_commas_nonempty: "split_commas s \<noteq> []"
  by (induction s) auto

lemma split_commas_no_comma:
  assumes "CHR '','' \<notin> set x"
  shows "split_commas (x @ rest) = (x @ hd (split_commas rest)) # tl (split_commas rest)"
  using assms by (induction x) (auto simp: split_commas_nonempty)

lemma split_commas_join:
  assumes "xs \<noteq> []" and "\<forall>x \<in> set xs. CHR '','' \<notin> set x"
  shows "split_commas (join '','' xs) = xs"
  using assms
proof (induction "'',''" xs rule: join.induct)
  case 1
  then show ?case
    by simp
next
  case (2 x)
  then have "CHR '','' \<notin> set x"
    by simp
  from split_commas_no_comma [OF this, of "[]"] show ?case
    by simp
next
  case (3 x y ys)
  then have x: "CHR '','' \<notin> set x" and rest: "split_commas (join '','' (y # ys)) = y # ys"
    by simp_all
  from split_commas_no_comma [OF x, of "'','' @ join '','' (y # ys)"] rest show ?case
    by simp
qed

lemma listed_keys_exclusion_clause:
  assumes "existing_ids \<noteq> []"
  shows "listed_keys (exclusion_clause existing_ids) = existing_ids"
proof -
  let ?body = "join '','' (map str_of_int existing_ids)"
  have "take (length (exclusion_clause existing_ids) - 20) (drop 18 (exclusion_clause existing_ids))
          = ?body"
    by (simp add: exclusion_clause_def)
  moreover from assms have "split_commas ?body = map str_of_int existing_ids"
    by (intro split_commas_join) (auto simp: str_of_int_no_comma)
  ultimately show ?thesis
    by (simp add: listed_keys_def read_int_str_of_int comp_def)
qed

lemma sublist_join:
  assumes "x \<in> set xs"
  shows "sublist x (join sep xs)"
  using assms
proof (induction sep xs rule: join.induct)
  case (1 sep)
  then show ?case
    by simp
next
  case (2 sep y)
  then show ?case
    by simp
next
  case (3 sep y z zs)
  show ?case
  proof (cases "x = y")
    case True
    then show ?thesis
      by simp
  next
    case False
    with 3 have "sublist x (join sep (z # zs))"
      by simp
    moreover have "sublist (join sep (z # zs)) ((y @ sep) @ join sep (z # zs))"
      by (rule sublist_append_leftI)
    ultimately have "sublist x ((y @ sep) @ join sep (z # zs))"
      by (rule sublist_order.order.trans)
    then show ?thesis
      by simp
  qed
qed

lemma is_exclusion_clause_exclusion_clause: "is_exclusion_clause (exclusion_clause existing_ids)"
  by (simp add: is_exclusion_clause_def exclusion_clause_def)

lemma status_clause_not_exclusion:
  assumes "status_clause cfg status_type = Inr status"
  shows "\<not> is_exclusion_clause status"
  using assms
  by (auto simp: status_clause_def is_exclusion_clause_def split: if_splits option.splits)

lemma status_clause_total:
  assumes "status_type = ''success'' \<or> status_types cfg status_type \<noteq> None"
  shows "\<exists>status. status_clause cfg status_type = Inr status"
  using assms by (cases "status_types cfg status_type") (simp_all add: status_clause_def)

lemma clock_skew_clause_not_exclusion: "\<not> is_exclusion_clause clock_skew_clause"
  by (simp add: clock_skew_clause_def is_exclusion_clause_def)

lemma join_Cons_start: "\<exists>rest. join sep (x # xs) = x @ rest"
  by (cases xs) auto

lemma landing_page_filter_not_exclusion:
  "\<not> is_exclusion_clause (''('' @ join '' OR '' (concat (map landing_page_conditions lps)) @ '')'')"
proof (cases lps)
  case Nil
  then show ?thesis
    by (simp add: is_exclusion_clause_def)
next
  case (Cons lp rest)
  define first where "first = ''cpd.`reg_utm_url` LIKE '' @ sq @ ''%'' @ py_str lp @ ''%'' @ sq"
  have "\<exists>others. concat (map landing_page_conditions (lp # rest)) = first # others"
    by (simp add: landing_page_conditions_def first_def)
  then obtain others where "concat (map landing_page_conditions (lp # rest)) = first # others"
    by blast
  with join_Cons_start [of "'' OR ''" first others]
  obtain tail where "join '' OR '' (concat (map landing_page_conditions (lp # rest))) = first @ tail"
    by auto
  with Cons show ?thesis
    by (simp add: is_exclusion_clause_def first_def)
qed
lemma course_where_clauses_shape:
  assumes "filters_are_not_exclusions cfg campaign"
    and "course_where_clauses cfg campaign status_type existing_ids = Inr where_clauses"
  shows "\<exists>before after.
           where_clauses
             = before @ (if existing_ids \<noteq> [] then [exclusion_clause existing_ids] else []) @ after
           \<and> (\<forall>c \<in> set before \<union> set after. \<not> is_exclusion_clause c)"
proof -
  from assms(2) obtain status where st: "status_clause cfg status_type = Inr status"
    by (cases "status_clause cfg status_type") (simp_all add: course_where_clauses_def)
  define types_clause where "types_clause =
    (case course_types cfg campaign of
       None \<Rightarrow> []
     | Some types \<Rightarrow> [''ce.`event_type_id` IN ('' @ join '','' (map str_of_int types) @ '')''])"
  define ids_clause where "ids_clause =
    (case course_ids cfg campaign of
       None \<Rightarrow> []
     | Some ids \<Rightarrow> [''cpd.`entity_id` IN ('' @ join '','' (map str_of_int ids) @ '')''])"
  define date_clause where "date_clause =
    (case date_filters cfg campaign of None \<Rightarrow> [] | Some date_filter \<Rightarrow> [date_filter])"
  define exclude_clause where "exclude_clause =
    (case exclude_filters cfg campaign of
       None \<Rightarrow> []
     | Some exclude_filter \<Rightarrow> if exclude_filter \<noteq> [] then [exclude_filter] else [])"
  have a: "\<forall>c \<in> set types_clause. \<not> is_exclusion_clause c"
    by (cases "course_types cfg campaign") (simp_all add: types_clause_def is_exclusion_clause_def)
  have b: "\<forall>c \<in> set ids_clause. \<not> is_exclusion_clause c"
    by (cases "course_ids cfg campaign") (simp_all add: ids_clause_def is_exclusion_clause_def)
  from assms(1) have d: "\<forall>c \<in> set date_clause. \<not> is_exclusion_clause c"
    by (cases "date_filters cfg campaign")
      (simp_all add: date_clause_def filters_are_not_exclusions_def)
  from assms(1) have e: "\<forall>c \<in> set exclude_clause. \<not> is_exclusion_clause c"
    by (cases "exclude_filters cfg campaign")
      (simp_all add: exclude_clause_def filters_are_not_exclusions_def)
  from st have s: "\<not> is_exclusion_clause status"
    by (rule status_clause_not_exclusion)
  from assms(2) st have "where_clauses
      = (types_clause @ ids_clause)
        @ (if existing_ids \<noteq> [] then [exclusion_clause existing_ids] else [])
        @ (date_clause @ [status] @ [clock_skew_clause] @ exclude_clause)"
    by (simp add: course_where_clauses_def types_clause_def ids_clause_def date_clause_def
        exclude_clause_def)
  moreover from a b d e s clock_skew_clause_not_exclusion
  have "\<forall>c \<in> set (types_clause @ ids_clause)
            \<union> set (date_clause @ [status] @ [clock_skew_clause] @ exclude_clause).
          \<not> is_exclusion_clause c"
    by auto
  ultimately show ?thesis
    by blast
qed

lemma landing_page_where_clauses_shape:
  assumes "filters_are_not_exclusions cfg campaign"
    and "landing_page_where_clauses cfg campaign status_type existing_ids = Inr where_clauses"
  shows "\<exists>before after.
           where_clauses
             = before @ (if existing_ids \<noteq> [] then [exclusion_clause existing_ids] else []) @ after
           \<and> (\<forall>c \<in> set before \<union> set after. \<not> is_exclusion_clause c)"
proof -
  from assms(2) obtain status where st: "status_clause cfg status_type = Inr status"
    by (cases "status_clause cfg status_type") (simp_all add: landing_page_where_clauses_def)
  define page_clause where "page_clause =
    (case landing_pages cfg campaign of
       None \<Rightarrow> []
     | Some lps \<Rightarrow> [''('' @ join '' OR '' (concat (map landing_page_conditions lps)) @ '')''])"
  define date_clause where "date_clause =
    (case date_filters cfg campaign of None \<Rightarrow> [] | Some date_filter \<Rightarrow> [date_filter])"
  have a: "\<forall>c \<in> set page_clause. \<not> is_exclusion_clause c"
    using landing_page_filter_not_exclusion
    by (cases "landing_pages cfg campaign") (simp_all add: page_clause_def)
  from assms(1) have d: "\<forall>c \<in> set date_clause. \<not> is_exclusion_clause c"
    by (cases "date_filters cfg campaign")
      (simp_all add: date_clause_def filters_are_not_exclusions_def)
  from st have s: "\<not> is_exclusion_clause status"
    by (rule status_clause_not_exclusion)
  from assms(2) st have "where_clauses
      = page_clause
        @ (if existing_ids \<noteq> [] then [exclusion_clause existing_ids] else [])
        @ (date_clause @ [status] @ [clock_skew_clause])"
    by (simp add: landing_page_where_clauses_def page_clause_def date_clause_def)
  moreover from a d s clock_skew_clause_not_exclusion
  have "\<forall>c \<in> set page_clause \<union> set (date_clause @ [status] @ [clock_skew_clause]).
          \<not> is_exclusion_clause c"
    by auto
  ultimately show ?thesis
    by blast
qed
lemma shape_excludes:
  assumes "where_clauses
             = before @ (if existing_ids \<noteq> [] then [exclusion_clause existing_ids] else []) @ after"
    and "\<forall>c \<in> set before \<union> set after. \<not> is_exclusion_clause c"
  shows "((\<exists>c \<in> set where_clauses. is_exclusion_clause c) \<longleftrightarrow> existing_ids \<noteq> [])
       \<and> (\<forall>c \<in> set where_clauses. is_exclusion_clause c \<longrightarrow>
             c = exclusion_clause existing_ids \<and> listed_keys c = existing_ids
             \<and> sublist c (sql_head @ join '' AND '' where_clauses @ sql_tail))"
proof (intro conjI ballI impI)
  show "(\<exists>c \<in> set where_clauses. is_exclusion_clause c) \<longleftrightarrow> existing_ids \<noteq> []"
  proof (cases "existing_ids = []")
    case True
    with assms show ?thesis
      by auto
  next
    case False
    with assms(1) have "exclusion_clause existing_ids \<in> set where_clauses"
      by simp
    with False is_exclusion_clause_exclusion_clause show ?thesis
      by blast
  qed
next
  fix c
  assume c: "c \<in> set where_clauses" and e: "is_exclusion_clause c"
  have "existing_ids \<noteq> [] \<and> c = exclusion_clause existing_ids"
  proof (cases "existing_ids = []")
    case True
    with assms c e show ?thesis
      by auto
  next
    case False
    with assms c e show ?thesis
      by auto
  qed
  then have ne: "existing_ids \<noteq> []" and eq: "c = exclusion_clause existing_ids"
    by simp_all
  from eq show "c = exclusion_clause existing_ids" .
  from ne eq show "listed_keys c = existing_ids"
    by (simp add: listed_keys_exclusion_clause)
  from c have "sublist c (join '' AND '' where_clauses)"
    by (rule sublist_join)
  moreover have "sublist (join '' AND '' where_clauses)
      (sql_head @ join '' AND '' where_clauses @ sql_tail)"
    by (rule sublist_appendI)
  ultimately show "sublist c (sql_head @ join '' AND '' where_clauses @ sql_tail)"
    by (rule sublist_order.order.trans)
qed

text \<open>
  C5. Both query builders, whenever they return a query (they do for the status
  \<open>success\<close> and for every status of \<^verbatim>\<open>status_types\<close>): the query is the fixed text
  around the where clauses joined by \<open>AND\<close>; one of the clauses is an exclusion clause
  if and only if the key set is non-empty; and an exclusion clause among them is the
  clause built from the key set, lists exactly its keys and is part of the query text.
  The date and exclude filters of the configuration are taken not to be exclusion
  clauses themselves.
\<close>

theorem exclusion_clause_iff_known_keys:
  assumes "filters_are_not_exclusions cfg campaign"
  shows "(\<forall>q. build_course_query cfg campaign status_type existing_ids = Inr q \<longrightarrow>
            (\<exists>where_clauses.
               course_where_clauses cfg campaign status_type existing_ids = Inr where_clauses
               \<and> q = sql_head @ join '' AND '' where_clauses @ sql_tail
               \<and> ((\<exists>c \<in> set where_clauses. is_exclusion_clause c) \<longleftrightarrow> existing_ids \<noteq> [])
               \<and> (\<forall>c \<in> set where_clauses. is_exclusion_clause c \<longrightarrow>
                     c = exclusion_clause existing_ids \<and> listed_keys c = existing_ids
                     \<and> sublist c q)))
       \<and> (\<forall>q. build_landing_page_query cfg campaign status_type existing_ids = Inr q \<longrightarrow>
            (\<exists>where_clauses.
               landing_page_where_clauses cfg campaign status_type existing_ids = Inr where_clauses
               \<and> q = sql_head @ join '' AND '' where_clauses @ sql_tail
               \<and> ((\<exists>c \<in> set where_clauses. is_exclusion_clause c) \<longleftrightarrow> existing_ids \<noteq> [])
               \<and> (\<forall>c \<in> set where_clauses. is_exclusion_clause c \<longrightarrow>
                     c = exclusion_clause existing_ids \<and> listed_keys c = existing_ids
                     \<and> sublist c q)))
       \<and> (status_type = ''success'' \<or> status_types cfg status_type \<noteq> None \<longrightarrow>
            (\<exists>q. build_course_query cfg campaign status_type existing_ids = Inr q)
            \<and> (\<exists>q. build_landing_page_query cfg campaign status_type existing_ids = Inr q))"
proof (intro conjI allI impI)
  fix q
  assume "build_course_query cfg campaign status_type existing_ids = Inr q"
  then obtain where_clauses
    where cl: "course_where_clauses cfg campaign status_type existing_ids = Inr where_clauses"
      and q: "q = sql_head @ join '' AND '' where_clauses @ sql_tail"
    by (auto simp: build_course_query_def split: sum.splits)
  from course_where_clauses_shape [OF assms cl] obtain before after
    where "where_clauses
             = before @ (if existing_ids \<noteq> [] then [exclusion_clause existing_ids] else []) @ after"
      and "\<forall>c \<in> set before \<union> set after. \<not> is_exclusion_clause c"
    by blast
  from shape_excludes [OF this] cl q
  show "\<exists>where_clauses.
               course_where_clauses cfg campaign status_type existing_ids = Inr where_clauses
               \<and> q = sql_head @ join '' AND '' where_clauses @ sql_tail
               \<and> ((\<exists>c \<in> set where_clauses. is_exclusion_clause c) \<longleftrightarrow> existing_ids \<noteq> [])
               \<and> (\<forall>c \<in> set where_clauses. is_exclusion_clause c \<longrightarrow>
                     c = exclusion_clause existing_ids \<and> listed_keys c = existing_ids
                     \<and> sublist c q)"
    by simp
next
  fix q
  assume "build_landing_page_query cfg campaign status_type existing_ids = Inr q"
  then obtain where_clauses
    where cl: "landing_page_where_clauses cfg campaign status_type existing_ids = Inr where_clauses"
      and q: "q = sql_head @ join '' AND '' where_clauses @ sql_tail"
    by (auto simp: build_landing_page_query_def split: sum.splits)
  from landing_page_where_clauses_shape [OF assms cl] obtain before after
    where "where_clauses
             = before @ (if existing_ids \<noteq> [] then [exclusion_clause existing_ids] else []) @ after"
      and "\<forall>c \<in> set before \<union> set after. \<not> is_exclusion_clause c"
    by blast
  from shape_excludes [OF this] cl q
  show "\<exists>where_clauses.
               landing_page_where_clauses cfg campaign status_type existing_ids = Inr where_clauses
               \<and> q = sql_head @ join '' AND '' where_clauses @ sql_tail
               \<and> ((\<exists>c \<in> set where_clauses. is_exclusion_clause c) \<longleftrightarrow> existing_ids \<noteq> [])
               \<and> (\<forall>c \<in> set where_clauses. is_exclusion_clause c \<longrightarrow>
                     c = exclusion_clause existing_ids \<and> listed_keys c = existing_ids
                     \<and> sublist c q)"
    by simp
next
  assume "status_type = ''success'' \<or> status_types cfg status_type \<noteq> None"
  then obtain status where "status_clause cfg status_type = Inr status"
    using status_clause_total by blast
  then show "\<exists>q. build_course_query cfg campaign status_type existing_ids = Inr q"
    and "\<exists>q. build_landing_page_query cfg campaign status_type existing_ids = Inr q"
    by (simp_all add: build_course_query_def course_where_clauses_def
        build_landing_page_query_def landing_page_where_clauses_def)
qed

theorem exclusion_clause_iff_known_keys_witness:
  "filters_are_not_exclusions anand_utsav_config ''anand-utsav-2025''
   \<and> course_where_clauses anand_utsav_config ''anand-utsav-2025'' ''failed'' [101, 205]
       = Inr [''cpd.`entity_id` IN (882646,882647,882648)'',
              ''(cpd.`id` NOT IN (101,205))'',
              ''cpd.`submitted_on` > '' @ sq @ ''2025-06-01'' @ sq,
              ''cpd.`participant_status` = 1'',
              clock_skew_clause]
   \<and> listed_keys ''(cpd.`id` NOT IN (101,205))'' = [101, 205]
   \<and> (\<exists>q. build_course_query anand_utsav_config ''anand-utsav-2025'' ''failed'' [101, 205] = Inr q
          \<and> sublist ''(cpd.`id` NOT IN (101,205))'' q)
   \<and> landing_page_where_clauses anand_utsav_config ''anand-utsav-2025'' ''success'' []
       = Inr [''(cpd.`reg_utm_url` LIKE '' @ sq @ ''%lp/anand-utsav%'' @ sq
                @ '' OR cpd.`referal_site` LIKE '' @ sq @ ''%lp/anand-utsav%'' @ sq
                @ '' OR cpd.`reg_utm_url` LIKE '' @ sq @ ''%greferrer=%lp/anand-utsav%'' @ sq
                @ '')'',
              ''cpd.`submitted_on` > '' @ sq @ ''2025-06-01'' @ sq,
              ''cpd.`participant_status` IN (5, 19)'',
              clock_skew_clause]
   \<and> (\<exists>q. build_landing_page_query anand_utsav_config ''anand-utsav-2025'' ''success'' [] = Inr q)"
proof -
  have ok: "filters_are_not_exclusions anand_utsav_config ''anand-utsav-2025''"
    by code_simp
  have clauses: "course_where_clauses anand_utsav_config ''anand-utsav-2025'' ''failed'' [101, 205]
       = Inr [''cpd.`entity_id` IN (882646,882647,882648)'',
              ''(cpd.`id` NOT IN (101,205))'',
              ''cpd.`submitted_on` > '' @ sq @ ''2025-06-01'' @ sq,
              ''cpd.`participant_status` = 1'',
              clock_skew_clause]"
    by code_simp
  have pages: "landing_page_where_clauses anand_utsav_config ''anand-utsav-2025'' ''success'' []
       = Inr [''(cpd.`reg_utm_url` LIKE '' @ sq @ ''%lp/anand-utsav%'' @ sq
                @ '' OR cpd.`referal_site` LIKE '' @ sq @ ''%lp/anand-utsav%'' @ sq
                @ '' OR cpd.`reg_utm_url` LIKE '' @ sq @ ''%greferrer=%lp/anand-utsav%'' @ sq
                @ '')'',
              ''cpd.`submitted_on` > '' @ sq @ ''2025-06-01'' @ sq,
              ''cpd.`participant_status` IN (5, 19)'',
              clock_skew_clause]"
    by code_simp
  have known: "status_types anand_utsav_config ''failed'' \<noteq> None"
    by code_simp
  have excl: "is_exclusion_clause ''(cpd.`id` NOT IN (101,205))''"
    by (simp add: is_exclusion_clause_def)
  note failed = exclusion_clause_iff_known_keys [OF ok, of "''failed''" "[101, 205]"]
  note success = exclusion_clause_iff_known_keys [OF ok, of "''success''" "[]"]
  from failed known obtain q
    where q: "build_course_query anand_utsav_config ''anand-utsav-2025'' ''failed'' [101, 205] = Inr q"
    by blast
  with failed obtain where_clauses
    where "course_where_clauses anand_utsav_config ''anand-utsav-2025'' ''failed'' [101, 205]
             = Inr where_clauses"
      and all: "\<forall>c \<in> set where_clauses. is_exclusion_clause c \<longrightarrow>
                     c = exclusion_clause [101, 205] \<and> listed_keys c = [101, 205] \<and> sublist c q"
    by blast
  with clauses have "''(cpd.`id` NOT IN (101,205))'' \<in> set where_clauses"
    by simp
  with all excl have "listed_keys ''(cpd.`id` NOT IN (101,205))'' = [101, 205]"
    and "sublist ''(cpd.`id` NOT IN (101,205))'' q"
    by blast+
  moreover from success
  have "\<exists>q. build_landing_page_query anand_utsav_config ''anand-utsav-2025'' ''success'' [] = Inr q"
    by blast
  ultimately show ?thesis
    using ok clauses pages q by blast
qed
section \<open>Properties of the merge\<close>

lemma pad_length: "length headers \<le> length (pad (length headers) r)"
  by (simp add: pad_def)

lemma pad_keeps_key:
  assumes "has_key r"
  shows "has_key (pad n r)" and "key_of (pad n r) = key_of r"
  using assms by (cases r; simp add: has_key_def key_of_def pad_def)+

lemma add_rows_map_of:
  "map_of (add_rows rows existing_keys n acc) k
     = (if k \<in> existing_keys then map_of acc k
        else case last_row k rows of
               Some r \<Rightarrow> Some (pad n r)
             | None \<Rightarrow> map_of acc k)"
proof (induction rows arbitrary: acc)
  case Nil
  then show ?case
    by simp
next
  case (Cons r rows)
  show ?case
  proof (cases "has_key r \<and> key_of r \<notin> existing_keys")
    case True
    with Cons.IH [of "AList.update (key_of r) (pad n r) acc"] show ?thesis
      by (auto simp: update_conv' split: option.splits)
  next
    case False
    with Cons.IH [of acc] show ?thesis
      by (auto split: option.splits)
  qed
qed

lemma add_rows_distinct:
  assumes "distinct (map fst acc)"
  shows "distinct (map fst (add_rows rows existing_keys n acc))"
  using assms by (induction rows arbitrary: acc) (auto simp: distinct_update)

lemma set_update_subset: "set (AList.update k v al) \<subseteq> insert (k, v) (set al)"
  by (induction al) auto

lemma add_rows_padded:
  assumes "\<forall>(k, v) \<in> set acc. n \<le> length v"
  shows "\<forall>(k, v) \<in> set (add_rows rows existing_keys n acc). n \<le> length v"
  using assms
proof (induction rows arbitrary: acc)
  case Nil
  then show ?case
    by simp
next
  case (Cons r rows)
  have "n \<le> length (pad n r)"
    by (simp add: pad_def)
  moreover have "set (AList.update (key_of r) (pad n r) acc) \<subseteq> insert (key_of r, pad n r) (set acc)"
    by (rule set_update_subset)
  ultimately have "\<forall>(k, v) \<in> set (AList.update (key_of r) (pad n r) acc). n \<le> length v"
    using Cons.prems by fastforce
  with Cons show ?case
    by simp
qed

lemma last_row_Some:
  assumes "last_row k rows = Some r"
  shows "r \<in> set rows \<and> has_key r \<and> key_of r = k"
  using assms by (induction rows) (auto split: option.splits if_splits)

lemma last_row_None:
  "last_row k rows = None \<longleftrightarrow> (\<forall>r \<in> set rows. \<not> (has_key r \<and> key_of r = k))"
  by (induction rows) (auto split: option.splits)

lemma new_merged_data_map_of:
  "map_of (new_merged_data headers course_data ad_data existing_keys) k
     = (if k \<in> existing_keys then None
        else case last_row k ad_data of
               Some r \<Rightarrow> Some (pad (length headers) r)
             | None \<Rightarrow>
                 (case last_row k course_data of
                    Some r \<Rightarrow> Some (pad (length headers) r)
                  | None \<Rightarrow> None))"
  by (simp add: new_merged_data_def add_rows_map_of split: option.splits)

lemma new_merged_data_distinct:
  "distinct (map fst (new_merged_data headers course_data ad_data existing_keys))"
  by (simp add: new_merged_data_def add_rows_distinct)

lemma new_merged_data_keys:
  "fst ` set (new_merged_data headers course_data ad_data existing_keys)
     = {key_of r | r. r \<in> set course_data \<union> set ad_data \<and> has_key r \<and> key_of r \<notin> existing_keys}"
proof -
  let ?m = "new_merged_data headers course_data ad_data existing_keys"
  have "fst ` set ?m = dom (map_of ?m)"
    by (simp add: dom_map_of_conv_image_fst)
  also have "\<dots> = {k. k \<notin> existing_keys
      \<and> (last_row k ad_data \<noteq> None \<or> last_row k course_data \<noteq> None)}"
    by (auto simp: dom_def new_merged_data_map_of split: option.splits if_splits)
  also have "\<dots> = {key_of r | r. r \<in> set course_data \<union> set ad_data \<and> has_key r
      \<and> key_of r \<notin> existing_keys}"
    by (auto simp: last_row_None)
  finally show ?thesis .
qed

lemma new_merged_data_entries:
  assumes "(k, v) \<in> set (new_merged_data headers course_data ad_data existing_keys)"
  shows "length headers \<le> length v \<and> has_key v \<and> key_of v = k"
proof -
  from assms new_merged_data_distinct
  have "map_of (new_merged_data headers course_data ad_data existing_keys) k = Some v"
    by (simp add: map_of_eq_Some_iff)
  then obtain r where r: "last_row k ad_data = Some r \<or> last_row k course_data = Some r"
    and v: "v = pad (length headers) r"
    by (auto simp: new_merged_data_map_of split: if_splits option.splits)
  from r have "has_key r \<and> key_of r = k"
    by (auto dest: last_row_Some)
  with v show ?thesis
    by (simp add: pad_keeps_key pad_length)
qed

subsection \<open>A second merge\<close>

lemma add_rows_all_known:
  assumes "\<forall>r \<in> set rows. has_key r \<longrightarrow> key_of r \<in> existing_keys"
  shows "add_rows rows existing_keys n acc = acc"
  using assms by (induction rows arbitrary: acc) auto

lemma existing_keys_of_iff:
  "k \<in> existing_keys_of existing_data \<longleftrightarrow> (\<exists>r \<in> set existing_data. has_key r \<and> key_of r = k)"
  by (auto simp: existing_keys_of_def)

lemma second_merge_keys_known:
  assumes "set (data_of merge_rows) \<union> set (new_merged_rows course_rows ad_rows merge_rows)
             \<subseteq> set (data_of merge_rows')"
    and "r \<in> set (data_of course_rows) \<union> set (data_of ad_rows)" and "has_key r"
  shows "key_of r \<in> existing_keys_of (data_of merge_rows')"
proof (cases "key_of r \<in> existing_keys_of (data_of merge_rows)")
  case True
  then obtain x where "x \<in> set (data_of merge_rows)" and "has_key x" and "key_of x = key_of r"
    by (auto simp: existing_keys_of_iff)
  with assms(1) show ?thesis
    by (auto simp: existing_keys_of_iff)
next
  case False
  let ?m = "new_merged_data (merge_headers course_rows ad_rows) (data_of course_rows)
      (data_of ad_rows) (existing_keys_of (data_of merge_rows))"
  from assms(2,3) False have "key_of r \<in> fst ` set ?m"
    by (subst new_merged_data_keys) blast
  then obtain v where kv: "(key_of r, v) \<in> set ?m"
    by auto
  then have "v \<in> set (new_merged_rows course_rows ad_rows merge_rows)"
    by (force simp: new_merged_rows_def)
  moreover from new_merged_data_entries [OF kv] have "has_key v" and "key_of v = key_of r"
    by simp_all
  ultimately show ?thesis
    using assms(1) by (auto simp: existing_keys_of_iff)
qed

lemma second_merge_nothing_new:
  assumes "set (data_of merge_rows) \<union> set (new_merged_rows course_rows ad_rows merge_rows)
             \<subseteq> set (data_of merge_rows')"
  shows "new_merged_rows course_rows ad_rows merge_rows' = []"
proof -
  from second_merge_keys_known [OF assms]
  have "\<forall>r \<in> set (data_of course_rows). has_key r \<longrightarrow>
          key_of r \<in> existing_keys_of (data_of merge_rows')"
    and "\<forall>r \<in> set (data_of ad_rows). has_key r \<longrightarrow>
          key_of r \<in> existing_keys_of (data_of merge_rows')"
    by auto
  then show ?thesis
    by (simp add: new_merged_rows_def new_merged_data_def add_rows_all_known)
qed

lemma read_attempts_first:
  assumes "svc (calls w) = Returns rows"
  shows "read_attempts svc sheet_name 0 w
           = (Inr rows, w\<lparr>calls := calls w + 1, trace := trace w @ [Get sheet_name]\<rparr>)"
  using assms by (simp add: read_attempts.simps [of svc sheet_name 0 w] remote_def)

lemma read_merge_target_first:
  assumes "svc (calls w) = Returns rows"
  shows "read_merge_target svc sheet_name w
           = (rows, w\<lparr>calls := calls w + 1, trace := trace w @ [Get sheet_name]\<rparr>)"
  using assms by (simp add: read_merge_target_def remote_def)
text \<open>
  C4. A merge class is run with the two source tables as they were and a merge target
  whose data rows contain the data rows the target had and the rows the first run
  handed to the writer. Then no candidate row is new, the class returns the running
  total unchanged, so it adds 0, and it makes no call that changes a sheet.
\<close>

theorem merge_idempotent:
  assumes "get_sheet_name cfg campaign (''course_'' @ merge_type) = Inr course_sheet_name"
    and "get_sheet_name cfg campaign (''ad_'' @ merge_type) = Inr ad_sheet_name"
    and "svc (calls w) = Returns course_rows"
    and "svc (calls w + 1) = Returns ad_rows"
    and "svc (calls w + 2) = Returns merge_rows'"
    and "set (data_of merge_rows) \<union> set (appended_rows course_rows ad_rows merge_rows)
           \<subseteq> set (data_of merge_rows')"
  shows "appended_rows course_rows ad_rows merge_rows' = []
       \<and> fst (merge_one_type cfg svc campaign merge_sheets_config merge_type total_new_merges w)
           = Inr total_new_merges
       \<and> list_all (\<lambda>ev. \<not> is_write ev)
           (drop (length (trace w))
              (trace (snd (merge_one_type cfg svc campaign merge_sheets_config merge_type
                             total_new_merges w))))"
proof -
  let ?run = "merge_one_type cfg svc campaign merge_sheets_config merge_type total_new_merges w"
  define w1 where "w1 = w\<lparr>calls := calls w + 1, trace := trace w @ [Get course_sheet_name]\<rparr>"
  define w2 where "w2 = w1\<lparr>calls := calls w1 + 1, trace := trace w1 @ [Get ad_sheet_name]\<rparr>"
  have r1: "read_attempts svc course_sheet_name 0 w = (Inr course_rows, w1)"
    using assms(3) by (simp add: read_attempts_first w1_def)
  have "svc (calls w1) = Returns ad_rows"
    using assms(4) by (simp add: w1_def)
  then have r2: "read_attempts svc ad_sheet_name 0 w1 = (Inr ad_rows, w2)"
    by (simp add: read_attempts_first w2_def)
  have c2: "svc (calls w2) = Returns merge_rows'"
    using assms(5) by (simp add: w1_def w2_def)
  have t2: "trace w2 = trace w @ [Get course_sheet_name, Get ad_sheet_name]"
    by (simp add: w1_def w2_def)
  show ?thesis
  proof (cases "merge_headers course_rows ad_rows = []")
    case True
    then have none: "appended_rows course_rows ad_rows merge_rows' = []"
      by (simp add: appended_rows_def)
    from True have "?run = (Inr total_new_merges, w) \<or> ?run = (Inr total_new_merges, w2)"
      using assms(1,2) r1 r2
      by (simp add: merge_one_type_def split: option.splits)
    with none t2 show ?thesis
      by auto
  next
    case False
    with assms(6)
    have "set (data_of merge_rows) \<union> set (new_merged_rows course_rows ad_rows merge_rows)
            \<subseteq> set (data_of merge_rows')"
      by (simp add: appended_rows_def)
    then have new: "new_merged_rows course_rows ad_rows merge_rows' = []"
      by (rule second_merge_nothing_new)
    then have none: "appended_rows course_rows ad_rows merge_rows' = []"
      by (simp add: appended_rows_def)
    define w3 where "w3 = w2\<lparr>calls := calls w2 + 1,
        trace := trace w2 @ [Get (the (merge_sheets_config (''merge_'' @ merge_type)))]\<rparr>"
    have r3: "read_merge_target svc name w2
        = (merge_rows', w2\<lparr>calls := calls w2 + 1, trace := trace w2 @ [Get name]\<rparr>)" for name
      using c2 by (rule read_merge_target_first)
    have "?run = (Inr total_new_merges, w) \<or> ?run = (Inr total_new_merges, w3)"
      using assms(1,2) r1 r2 r3 False new
      by (simp add: merge_one_type_def w3_def split: option.splits)
    moreover have "trace w3 = trace w @ [Get course_sheet_name, Get ad_sheet_name,
        Get (the (merge_sheets_config (''merge_'' @ merge_type)))]"
      by (simp add: w3_def t2)
    ultimately show ?thesis
      using none by auto
  qed
qed
theorem merge_idempotent_witness:
  "appended_rows [[PStr ''Ref'', PStr ''Name''], [PStr ''1'', PStr ''a'']]
       [[PStr ''Ref'', PStr ''Name''], [PStr ''1'', PStr ''b''], [PStr ''2'', PStr ''c'']] []
     = [[PStr ''1'', PStr ''b''], [PStr ''2'', PStr ''c'']]
   \<and> fst (merge_one_type anand_utsav_config
            (scripted_service
               [Returns [[PStr ''Ref'', PStr ''Name''], [PStr ''1'', PStr ''a'']],
                Returns [[PStr ''Ref'', PStr ''Name''], [PStr ''1'', PStr ''b''],
                         [PStr ''2'', PStr ''c'']],
                Returns [], Returns [], Returns [],
                Returns [[PStr ''Ref'', PStr ''Name''], [PStr ''1'', PStr ''b''],
                         [PStr ''2'', PStr ''c'']]])
            ''anand-utsav-2025''
            [''merge_success'' \<mapsto> ''AU 2025 All Success'', ''merge_failed'' \<mapsto> ''AU 2025 All Failed'']
            ''success'' 0 fresh_world) = Inr 2
   \<and> appended_rows [[PStr ''Ref'', PStr ''Name''], [PStr ''1'', PStr ''a'']]
       [[PStr ''Ref'', PStr ''Name''], [PStr ''1'', PStr ''b''], [PStr ''2'', PStr ''c'']]
       [[PStr ''Ref'', PStr ''Name''], [PStr ''1'', PStr ''b''], [PStr ''2'', PStr ''c'']]
     = []
   \<and> fst (merge_one_type anand_utsav_config
            (scripted_service
               [Returns [[PStr ''Ref'', PStr ''Name''], [PStr ''1'', PStr ''a'']],
                Returns [[PStr ''Ref'', PStr ''Name''], [PStr ''1'', PStr ''b''],
                         [PStr ''2'', PStr ''c'']],
                Returns [[PStr ''Ref'', PStr ''Name''], [PStr ''1'', PStr ''b''],
                         [PStr ''2'', PStr ''c'']]])
            ''anand-utsav-2025''
            [''merge_success'' \<mapsto> ''AU 2025 All Success'', ''merge_failed'' \<mapsto> ''AU 2025 All Failed'']
            ''success'' 0 fresh_world) = Inr 0
   \<and> trace (snd (merge_one_type anand_utsav_config
            (scripted_service
               [Returns [[PStr ''Ref'', PStr ''Name''], [PStr ''1'', PStr ''a'']],
                Returns [[PStr ''Ref'', PStr ''Name''], [PStr ''1'', PStr ''b''],
                         [PStr ''2'', PStr ''c'']],
                Returns [[PStr ''Ref'', PStr ''Name''], [PStr ''1'', PStr ''b''],
                         [PStr ''2'', PStr ''c'']]])
            ''anand-utsav-2025''
            [''merge_success'' \<mapsto> ''AU 2025 All Success'', ''merge_failed'' \<mapsto> ''AU 2025 All Failed'']
            ''success'' 0 fresh_world))
     = [Get ''AU Ctr Course Success'', Get ''AU 2025 LP Success'', Get ''AU 2025 All Success'']"
proof -
  let ?course = "[[PStr ''Ref'', PStr ''Name''], [PStr ''1'', PStr ''a'']]"
  let ?ad = "[[PStr ''Ref'', PStr ''Name''], [PStr ''1'', PStr ''b''], [PStr ''2'', PStr ''c'']]"
  let ?target = "[[PStr ''Ref'', PStr ''Name''], [PStr ''1'', PStr ''b''], [PStr ''2'', PStr ''c'']]"
  let ?svc = "scripted_service [Returns ?course, Returns ?ad, Returns ?target]"
  have first_rows: "appended_rows ?course ?ad [] = [[PStr ''1'', PStr ''b''], [PStr ''2'', PStr ''c'']]"
    by code_simp
  have first_run: "fst (merge_one_type anand_utsav_config
            (scripted_service [Returns ?course, Returns ?ad, Returns [], Returns [], Returns [],
               Returns ?target])
            ''anand-utsav-2025''
            [''merge_success'' \<mapsto> ''AU 2025 All Success'', ''merge_failed'' \<mapsto> ''AU 2025 All Failed'']
            ''success'' 0 fresh_world) = Inr 2"
    by code_simp
  have names: "get_sheet_name anand_utsav_config ''anand-utsav-2025'' (''course_'' @ ''success'')
      = Inr ''AU Ctr Course Success''"
    "get_sheet_name anand_utsav_config ''anand-utsav-2025'' (''ad_'' @ ''success'')
      = Inr ''AU 2025 LP Success''"
    by code_simp+
  have replies: "?svc (calls fresh_world) = Returns ?course"
    "?svc (calls fresh_world + 1) = Returns ?ad"
    "?svc (calls fresh_world + 2) = Returns ?target"
    by (simp_all add: scripted_service_def fresh_world_def)
  from first_rows
  have present: "set (data_of []) \<union> set (appended_rows ?course ?ad []) \<subseteq> set (data_of ?target)"
    by (simp add: data_of_def)
  note inst = merge_idempotent [OF names replies present,
      of "[''merge_success'' \<mapsto> ''AU 2025 All Success'', ''merge_failed'' \<mapsto> ''AU 2025 All Failed'']" 0]
  have events: "trace (snd (merge_one_type anand_utsav_config ?svc ''anand-utsav-2025''
            [''merge_success'' \<mapsto> ''AU 2025 All Success'', ''merge_failed'' \<mapsto> ''AU 2025 All Failed'']
            ''success'' 0 fresh_world))
     = [Get ''AU Ctr Course Success'', Get ''AU 2025 LP Success'', Get ''AU 2025 All Success'']"
    by code_simp
  from first_rows first_run inst events show ?thesis
    by simp
qed
section \<open>Properties of the record transformer\<close>

lemma need_Some: "row k = Some v \<Longrightarrow> need row k f = f v"
  by (simp add: need_def)

lemma need_None: "row k = None \<Longrightarrow> need row k f = Inl KeyError"
  by (simp add: need_def)

lemma has_columns_identifying:
  "has_columns identifying_columns row \<longleftrightarrow>
     (\<exists>ref course_id title name email phone submitted_on pincode referal_site reg_utm_url.
        row ''id'' = Some ref \<and> row ''accounting_course_id_201'' = Some course_id
        \<and> row ''title'' = Some title \<and> row ''name'' = Some name
        \<and> row ''participant_email'' = Some email \<and> row ''participant_phone'' = Some phone
        \<and> row ''submitted_on'' = Some submitted_on \<and> row ''pincode'' = Some pincode
        \<and> row ''referal_site'' = Some referal_site \<and> row ''reg_utm_url'' = Some reg_utm_url)"
  by (auto simp: has_columns_def identifying_columns_def)

lemma prepare_row_columns:
  assumes "row ''participant_email'' = Some email" "row ''participant_phone'' = Some phone"
    "row ''name'' = Some name" "row ''pincode'' = Some pincode"
    "row ''referal_site'' = Some referal_site" "row ''reg_utm_url'' = Some reg_utm_url"
  shows "prepare_row row = Inr (prepared row email phone name pincode referal_site reg_utm_url)"
  using assms by (simp add: prepare_row_def need_def prepared_def)

lemma prepared_lookups:
  "prepared row email phone name pincode referal_site reg_utm_url ''participant_email'' = Some (or_empty email)"
  "prepared row email phone name pincode referal_site reg_utm_url ''participant_phone''
     = Some (if truthy phone then PStr (py_str phone) else PStr [])"
  "prepared row email phone name pincode referal_site reg_utm_url ''name'' = Some (or_empty name)"
  "prepared row email phone name pincode referal_site reg_utm_url ''referal_site'' = Some (or_empty referal_site)"
  "prepared row email phone name pincode referal_site reg_utm_url ''reg_utm_url'' = Some (or_empty reg_utm_url)"
  "prepared row email phone name pincode referal_site reg_utm_url ''id'' = row ''id''"
  "prepared row email phone name pincode referal_site reg_utm_url ''accounting_course_id_201'' = row ''accounting_course_id_201''"
  "prepared row email phone name pincode referal_site reg_utm_url ''title'' = row ''title''"
  "prepared row email phone name pincode referal_site reg_utm_url ''submitted_on'' = row ''submitted_on''"
  "prepared row email phone name pincode referal_site reg_utm_url ''pg_res_msg'' = row ''pg_res_msg''"
  "prepared row email phone name pincode referal_site reg_utm_url ''pg_res_code'' = row ''pg_res_code''"
  by (simp_all add: prepared_def)

lemma status_text_prepared:
  "status_text cfg status_type (prepared row email phone name pincode referal_site reg_utm_url)
     = status_text cfg status_type row"
  by (auto simp: status_text_def need_def prepared_lookups split: option.splits)

lemma phone_again:
  "(if truthy (if truthy phone then PStr (py_str phone) else PStr [])
    then PStr (py_str (if truthy phone then PStr (py_str phone) else PStr [])) else PStr [])
   = (if truthy phone then PStr (py_str phone) else PStr [])"
  by simp

lemma fallback_row_prepared:
  assumes "row ''id'' = Some ref" "row ''accounting_course_id_201'' = Some course_id"
    "row ''title'' = Some title" "row ''submitted_on'' = Some submitted_on"
  shows "fallback_row (prepared row email phone name pincode referal_site reg_utm_url)
     = Inr [ref, course_id, title, or_empty name, or_empty email,
            (if truthy phone then PStr (py_str phone) else PStr []),
            PStr (py_str submitted_on), PStr ''Error'', or_empty referal_site,
            or_empty reg_utm_url, PStr [], or_empty referal_site, PStr [], PStr [], PStr [],
            PStr [], PStr [], PStr [], PStr [], PStr ''Error'']"
  using assms by (simp add: fallback_row_def need_def prepared_lookups)

lemma formatted_row_prepared:
  assumes "row ''id'' = Some ref" "row ''accounting_course_id_201'' = Some course_id"
    "row ''title'' = Some title" "row ''submitted_on'' = Some submitted_on"
  shows "formatted_row cfg parse_url lps status_type
           (prepared row email phone name pincode referal_site reg_utm_url)
     = (case status_text cfg status_type row of
          Inl e \<Rightarrow> Inl e
        | Inr status \<Rightarrow>
            (let utm_params = extract_utm_parameters parse_url (or_empty reg_utm_url)
                                (or_empty referal_site)
             in Inr [ref, course_id, title, or_empty name, or_empty email,
                     (if truthy phone then PStr (py_str phone) else PStr []),
                     PStr (py_str submitted_on), PStr status, or_empty referal_site,
                     or_empty reg_utm_url,
                     utm_params ''first_page'', utm_params ''greferrer'',
                     utm_params ''utm_campaign'', utm_params ''utm_id'',
                     utm_params ''utm_source'', utm_params ''utm_medium'',
                     utm_params ''utm_term'', utm_params ''utm_content'',
                     utm_params ''fbclid'',
                     PStr (determine_reg_type (utm_params ''first_page'')
                             (utm_params ''greferrer'') lps)]))"
  using assms
  by (simp add: formatted_row_def need_def prepared_lookups status_text_prepared Let_def
           split: sum.splits)

lemma extract_utm_parameters_absorbs:
  assumes "parse_url u = Inl e"
  shows "extract_utm_parameters parse_url (PStr u) referal_site
     = (if truthy referal_site then empty_params(''greferrer'' := referal_site)
        else empty_params)"
  using assms
  by (simp add: extract_utm_parameters_def params_from_url_def empty_params_def Let_def)

lemma process_rows_all:
  assumes "\<And>r. r \<in> set rows \<Longrightarrow> \<exists>out. f r = Inr out"
  shows "\<exists>data. process_rows f rows = Inr data \<and> list_all2 (\<lambda>r out. f r = Inr out) rows data"
  using assms
proof (induction rows)
  case Nil
  then show ?case by simp
next
  case (Cons r rows)
  then obtain out where out: "f r = Inr out" by auto
  from Cons obtain data where "process_rows f rows = Inr data"
    "list_all2 (\<lambda>r out. f r = Inr out) rows data" by auto
  with out show ?case by simp
qed
end
